theory Spec2Isabelle
  imports Main "HOL-Library.Sublist" "HOL-Library.AList"
begin

section \<open>The syntax tree, as far as the rule reads it\<close>

text \<open>
  The rule \<^verbatim>\<open>react-unused-props-and-state\<close> (reactUnusedPropsAndStateRule.ts) walks a
  TypeScript syntax tree. It reads a node's kind, its source text (\<^verbatim>\<open>getText()\<close>), its
  parent, and a few fields of the node kinds it overrides a visit method for. The
  embedding keeps one constructor for each of those kinds and one for all the others.
\<close>

datatype LanguageVariant = Standard | JSX

datatype SyntaxKind =
    KindSourceFile
  | KindClassDeclaration
  | KindInterfaceDeclaration
  | KindPropertyAccessExpression
  | KindIdentifier
  | KindConstructor
  | KindMethodDeclaration
  | KindCallExpression
  | KindParameter
  | KindOther

text \<open>
  A name node as the rule reads it through a cast to \<^verbatim>\<open>ts.Identifier\<close>: identifiers,
  string literals and numeric literals have a \<^verbatim>\<open>text\<close> field; a computed property name
  or a binding pattern has none, and JavaScript reads \<^verbatim>\<open>undefined\<close> there.
\<close>

datatype NameNode = WithText string | WithoutText

fun text_of :: "NameNode \<Rightarrow> string option" where
  "text_of (WithText t) = Some t"
| "text_of WithoutText = None"

text \<open>
  A member of an interface: its optional name (\<^verbatim>\<open>name?: PropertyName\<close>; index and call
  signatures have none) and the span \<^verbatim>\<open>getStart()\<close>, \<^verbatim>\<open>getWidth()\<close> of its declaration.
\<close>

record TypeElement =
  name :: "NameNode option"
  getStart :: nat
  getWidth :: nat

text \<open>
  Nodes. The last argument of every constructor but \<open>Identifier\<close> is the list of
  children in the order \<^verbatim>\<open>ts.forEachChild\<close> yields them.
  \<^item> \<open>InterfaceDeclaration n ms cs\<close>: \<^verbatim>\<open>name.text\<close>, \<^verbatim>\<open>members\<close>, children;
  \<^item> \<open>PropertyAccessExpression t cs\<close>: \<^verbatim>\<open>getText()\<close>, children;
  \<^item> \<open>Identifier t\<close>: \<^verbatim>\<open>text\<close> (an identifier has no children);
  \<^item> \<open>Constructor ps cs\<close>: the names of \<^verbatim>\<open>parameters\<close>, children;
  \<^item> \<open>MethodDeclaration n ps cs\<close>: \<^verbatim>\<open>name\<close>, the names of \<^verbatim>\<open>parameters\<close>, children;
  \<^item> \<open>CallExpression t cs\<close>: \<^verbatim>\<open>expression.getText()\<close>, children.
\<close>

datatype Node =
    ClassDeclaration "Node list"
  | InterfaceDeclaration string "TypeElement list" "Node list"
  | PropertyAccessExpression string "Node list"
  | Identifier string
  | Constructor "NameNode list" "Node list"
  | MethodDeclaration NameNode "NameNode list" "Node list"
  | CallExpression string "Node list"
  | Parameter "Node list"
  | OtherNode "Node list"

record SourceFile =
  languageVariant :: LanguageVariant
  statements :: "Node list"

fun kind :: "Node \<Rightarrow> SyntaxKind" where
  "kind (ClassDeclaration cs) = KindClassDeclaration"
| "kind (InterfaceDeclaration n ms cs) = KindInterfaceDeclaration"
| "kind (PropertyAccessExpression t cs) = KindPropertyAccessExpression"
| "kind (Identifier t) = KindIdentifier"
| "kind (Constructor ps cs) = KindConstructor"
| "kind (MethodDeclaration n ps cs) = KindMethodDeclaration"
| "kind (CallExpression t cs) = KindCallExpression"
| "kind (Parameter cs) = KindParameter"
| "kind (OtherNode cs) = KindOther"

fun children :: "Node \<Rightarrow> Node list" where
  "children (ClassDeclaration cs) = cs"
| "children (InterfaceDeclaration n ms cs) = cs"
| "children (PropertyAccessExpression t cs) = cs"
| "children (Identifier t) = []"
| "children (Constructor ps cs) = cs"
| "children (MethodDeclaration n ps cs) = cs"
| "children (CallExpression t cs) = cs"
| "children (Parameter cs) = cs"
| "children (OtherNode cs) = cs"

text \<open>\<^verbatim>\<open>node.parent\<close>: the walk hands every node its parent.\<close>

datatype Parent = ParentSourceFile | ParentNode Node

fun parentKind :: "Parent \<Rightarrow> SyntaxKind" where
  "parentKind ParentSourceFile = KindSourceFile"
| "parentKind (ParentNode n) = kind n"

section \<open>Strings, regular expressions and objects of the host language\<close>

text \<open>
  \<^verbatim>\<open>/this\.props\..*/.test(s)\<close> is not anchored and \<^verbatim>\<open>.*\<close> matches the empty string, so
  the test asks whether the literal text occurs somewhere in \<open>s\<close>.
\<close>

fun contains :: "string \<Rightarrow> string \<Rightarrow> bool" where
  "contains pat [] = (pat = [])"
| "contains pat (c # cs) = (prefix pat (c # cs) \<or> contains pat cs)"

text \<open>
  \<^verbatim>\<open>new RegExp(alias + '\\..*').test(s)\<close>. The alias is the text of an identifier and is
  pasted into the pattern unescaped. Of the characters an identifier can hold only
  \<^verbatim>\<open>$\<close> is special in a pattern: it asserts the end of the input, and since the
  pattern still has to match a dot after it, a pattern with a \<^verbatim>\<open>$\<close> matches nothing.
\<close>

definition aliasRegExpTest :: "string \<Rightarrow> string \<Rightarrow> bool" where
  "aliasRegExpTest alias s = (CHR ''$'' \<notin> set alias \<and> contains (alias @ ''.'') s)"

text \<open>
  The \<^verbatim>\<open>text\<close> field of a name is the parser's, not the source text: the parser of the
  rule's time stores an identifier, and a literal that names a property, escaped, with
  one more underscore in front of a name that starts with two. \<^verbatim>\<open>getText()\<close> gives the
  source text as written. The trees of real files are built with this function.
\<close>

definition escapeIdentifier :: "string \<Rightarrow> string" where
  "escapeIdentifier identifier =
     (if prefix ''__'' identifier then ''_'' @ identifier else identifier)"

text \<open>\<^verbatim>\<open>s.substring(n)\<close>: the text from index \<open>n\<close> on, empty when \<open>s\<close> is shorter.\<close>

definition substring :: "string \<Rightarrow> nat \<Rightarrow> string" where
  "substring s n = drop n s"

text \<open>
  Modelled from the spec: \<^verbatim>\<open>Utils.remove\<close> (utils/Utils.ts is not among the sources);
  the spec has the analyzer "remove the referenced member name from the still-unused
  set": the list without the elements equal to the given one, order kept.
\<close>

definition Utils_remove :: "string list \<Rightarrow> string \<Rightarrow> string list" where
  "Utils_remove list element = filter (\<lambda>listElement. listElement \<noteq> element) list"

text \<open>
  A plain object \<^verbatim>\<open>{ [index: string]: ts.TypeElement }\<close> is a list of its own
  properties in insertion order. \<^verbatim>\<open>result[key] = v\<close> overwrites an own property in
  place and appends a new one; for the key \<^verbatim>\<open>__proto__\<close> the assignment reaches the
  setter of \<^verbatim>\<open>Object.prototype\<close> and makes no own property.
\<close>

type_synonym Object = "(string \<times> TypeElement) list"

definition setProperty :: "Object \<Rightarrow> string \<Rightarrow> TypeElement \<Rightarrow> Object" where
  "setProperty obj key v = (if key = ''__proto__'' then obj else AList.update key v obj)"

text \<open>
  \<^verbatim>\<open>Object.keys\<close>: the own keys that are array indices (canonical decimal numerals below
  \<open>2^32 - 1\<close>) in ascending numeric order, then the other keys in insertion order.
\<close>

definition isDigit :: "char \<Rightarrow> bool" where
  "isDigit c = (c \<in> set ''0123456789'')"

definition decimalValue :: "string \<Rightarrow> nat" where
  "decimalValue s = foldl (\<lambda>n c. 10 * n + (of_char c - 48)) 0 s"

definition isArrayIndex :: "string \<Rightarrow> bool" where
  "isArrayIndex s =
     (s \<noteq> [] \<and> list_all isDigit s \<and> (s = ''0'' \<or> hd s \<noteq> CHR ''0'') \<and>
      decimalValue s < 4294967295)"

definition Object_keys :: "Object \<Rightarrow> string list" where
  "Object_keys obj =
     sort_key decimalValue (filter isArrayIndex (map fst obj)) @
     filter (\<lambda>k. \<not> isArrayIndex k) (map fst obj)"

section \<open>The walker\<close>

text \<open>The fields of \<^verbatim>\<open>ReactUnusedPropsAndStateRuleWalker\<close>; an unset alias is \<open>None\<close>.\<close>

record Walker =
  propNames :: "string list"
  propNodes :: Object
  stateNames :: "string list"
  stateNodes :: Object
  classDeclarations :: "Node list"
  propsAlias :: "string option"
  stateAlias :: "string option"

definition newWalker :: Walker where
  "newWalker = \<lparr> propNames = [], propNodes = [], stateNames = [], stateNodes = [],
     classDeclarations = [], propsAlias = None, stateAlias = None \<rparr>"

definition getTypeElementData :: "TypeElement list \<Rightarrow> Object" where
  "getTypeElementData members =
     fold (\<lambda>typeElement result.
             (case name typeElement of
                None \<Rightarrow> result
              | Some n \<Rightarrow>
                  (case text_of n of
                     None \<Rightarrow> result
                   | Some t \<Rightarrow> setProperty result t typeElement)))
          members []"

fun isParentNodeSuperCall :: "Parent \<Rightarrow> bool" where
  "isParentNodeSuperCall (ParentNode (CallExpression t cs)) = (t = ''super'')"
| "isParentNodeSuperCall p = False"

text \<open>\<^verbatim>\<open>visitInterfaceDeclaration\<close> up to its call of the inherited method.\<close>

definition visitInterfaceDeclaration :: "string \<Rightarrow> TypeElement list \<Rightarrow> Walker \<Rightarrow> Walker" where
  "visitInterfaceDeclaration n members w =
     (let w1 = (if n = ''Props''
                then w\<lparr> propNodes := getTypeElementData members,
                        propNames := Object_keys (getTypeElementData members) \<rparr>
                else w)
      in (if n = ''State''
          then w1\<lparr> stateNodes := getTypeElementData members,
                    stateNames := Object_keys (getTypeElementData members) \<rparr>
          else w1))"

text \<open>
  \<^verbatim>\<open>visitPropertyAccessExpression\<close> up to its call of the inherited method: its four
  statements after the read of \<^verbatim>\<open>node.getText()\<close>, in their order.
\<close>

definition canonicalAccess :: "string \<Rightarrow> Walker \<Rightarrow> Walker" where
  "canonicalAccess referencedPropertyName w =
     (if contains ''this.props.'' referencedPropertyName
      then w\<lparr> propNames := Utils_remove (propNames w) (substring referencedPropertyName 11) \<rparr>
      else if contains ''this.state.'' referencedPropertyName
      then w\<lparr> stateNames := Utils_remove (stateNames w) (substring referencedPropertyName 11) \<rparr>
      else w)"

definition propsAliasAccess :: "string \<Rightarrow> Walker \<Rightarrow> Walker" where
  "propsAliasAccess referencedPropertyName w =
     (case propsAlias w of
        None \<Rightarrow> w
      | Some a \<Rightarrow>
          if aliasRegExpTest a referencedPropertyName
          then w\<lparr> propNames :=
                    Utils_remove (propNames w) (substring referencedPropertyName (length a + 1)) \<rparr>
          else w)"

definition stateAliasAccess :: "string \<Rightarrow> Walker \<Rightarrow> Walker" where
  "stateAliasAccess referencedPropertyName w =
     (case stateAlias w of
        None \<Rightarrow> w
      | Some a \<Rightarrow>
          if aliasRegExpTest a referencedPropertyName
          then w\<lparr> stateNames :=
                    Utils_remove (stateNames w) (substring referencedPropertyName (length a + 1)) \<rparr>
          else w)"

definition escapedReference :: "Parent \<Rightarrow> string \<Rightarrow> Walker \<Rightarrow> Walker" where
  "escapedReference parent referencedPropertyName w =
     (if parentKind parent \<noteq> KindPropertyAccessExpression
      then (if referencedPropertyName = ''this.props'' then w\<lparr> propNames := [] \<rparr>
            else if referencedPropertyName = ''this.state'' then w\<lparr> stateNames := [] \<rparr>
            else w)
      else w)"

definition visitPropertyAccessExpression :: "Parent \<Rightarrow> string \<Rightarrow> Walker \<Rightarrow> Walker" where
  "visitPropertyAccessExpression parent referencedPropertyName w =
     escapedReference parent referencedPropertyName
       (stateAliasAccess referencedPropertyName
         (propsAliasAccess referencedPropertyName
           (canonicalAccess referencedPropertyName w)))"

text \<open>\<^verbatim>\<open>visitIdentifier\<close>: its two statements, in their order.\<close>

definition propsAliasReference :: "Parent \<Rightarrow> string \<Rightarrow> Walker \<Rightarrow> Walker" where
  "propsAliasReference parent t w =
     (case propsAlias w of
        None \<Rightarrow> w
      | Some a \<Rightarrow>
          if t = a
             \<and> parentKind parent \<noteq> KindPropertyAccessExpression
             \<and> parentKind parent \<noteq> KindParameter
             \<and> isParentNodeSuperCall parent = False
          then w\<lparr> propNames := [] \<rparr>
          else w)"

definition stateAliasReference :: "Parent \<Rightarrow> string \<Rightarrow> Walker \<Rightarrow> Walker" where
  "stateAliasReference parent t w =
     (case stateAlias w of
        None \<Rightarrow> w
      | Some a \<Rightarrow>
          if t = a
             \<and> parentKind parent \<noteq> KindPropertyAccessExpression
             \<and> parentKind parent \<noteq> KindParameter
          then w\<lparr> stateNames := [] \<rparr>
          else w)"

definition visitIdentifier :: "Parent \<Rightarrow> string \<Rightarrow> Walker \<Rightarrow> Walker" where
  "visitIdentifier parent t w = stateAliasReference parent t (propsAliasReference parent t w)"

text \<open>
  The two tests of \<^verbatim>\<open>visitMethodDeclaration\<close> on the method's name. The name is read
  through \<^verbatim>\<open>.text\<close>; \<^verbatim>\<open>RegExp.prototype.test\<close> turns a missing text into the string
  \<^verbatim>\<open>undefined\<close>.
\<close>

definition methodNameText :: "NameNode \<Rightarrow> string" where
  "methodNameText n = (case text_of n of None \<Rightarrow> ''undefined'' | Some t \<Rightarrow> t)"

definition receivesProps :: "string \<Rightarrow> bool" where
  "receivesProps methodName =
     (contains ''componentWillReceiveProps'' methodName
      \<or> contains ''shouldComponentUpdate'' methodName
      \<or> contains ''componentWillUpdate'' methodName
      \<or> contains ''componentDidUpdate'' methodName)"

definition receivesState :: "string \<Rightarrow> bool" where
  "receivesState methodName =
     (contains ''shouldComponentUpdate'' methodName
      \<or> contains ''componentWillUpdate'' methodName
      \<or> contains ''componentDidUpdate'' methodName)"

text \<open>The statements of the two methods before their call of the inherited method.\<close>

definition visitConstructorDeclaration :: "NameNode list \<Rightarrow> Walker \<Rightarrow> Walker" where
  "visitConstructorDeclaration parameters w =
     (if length parameters > 0 then w\<lparr> propsAlias := text_of (parameters ! 0) \<rparr> else w)"

definition visitMethodDeclaration :: "NameNode \<Rightarrow> NameNode list \<Rightarrow> Walker \<Rightarrow> Walker" where
  "visitMethodDeclaration n parameters w =
     (let methodName = methodNameText n;
          w1 = (if receivesProps methodName \<and> length parameters > 0
                then w\<lparr> propsAlias := text_of (parameters ! 0) \<rparr> else w)
      in (if receivesState methodName \<and> length parameters > 1
          then w1\<lparr> stateAlias := text_of (parameters ! 1) \<rparr> else w1))"

text \<open>
  Modelled from the spec: the dispatch on the node's kind and the walk of a node's
  children, which the rule inherits (utils/ErrorTolerantWalker.ts and the syntax walker
  below it are not among the sources). The spec has a traversal facility that "invokes
  the analyzer's visit hooks for each relevant node kind" and "supports explicit
  recursive continuation into child nodes", depth first and in source order. Each
  equation for a kind the rule overrides is that visit method: its statements, with the
  call of the inherited method as the walk of the children where the method makes it.
  \<^verbatim>\<open>visitClassDeclaration\<close> stores the node and does not descend.
\<close>

fun visitNode :: "Parent \<Rightarrow> Node \<Rightarrow> Walker \<Rightarrow> Walker"
  and walkChildren :: "Parent \<Rightarrow> Node list \<Rightarrow> Walker \<Rightarrow> Walker" where
  "visitNode p (ClassDeclaration cs) w =
     w\<lparr> classDeclarations := classDeclarations w @ [ClassDeclaration cs] \<rparr>"
| "visitNode p (InterfaceDeclaration n ms cs) w =
     walkChildren (ParentNode (InterfaceDeclaration n ms cs)) cs
       (visitInterfaceDeclaration n ms w)"
| "visitNode p (PropertyAccessExpression t cs) w =
     walkChildren (ParentNode (PropertyAccessExpression t cs)) cs
       (visitPropertyAccessExpression p t w)"
| "visitNode p (Identifier t) w = visitIdentifier p t w"
| "visitNode p (Constructor ps cs) w =
     (walkChildren (ParentNode (Constructor ps cs)) cs (visitConstructorDeclaration ps w))
       \<lparr> propsAlias := None \<rparr>"
| "visitNode p (MethodDeclaration n ps cs) w =
     (walkChildren (ParentNode (MethodDeclaration n ps cs)) cs (visitMethodDeclaration n ps w))
       \<lparr> propsAlias := None, stateAlias := None \<rparr>"
| "visitNode p (CallExpression t cs) w = walkChildren (ParentNode (CallExpression t cs)) cs w"
| "visitNode p (Parameter cs) w = walkChildren (ParentNode (Parameter cs)) cs w"
| "visitNode p (OtherNode cs) w = walkChildren (ParentNode (OtherNode cs)) cs w"
| "walkChildren p [] w = w"
| "walkChildren p (c # cs) w = walkChildren p cs (visitNode p c w)"

section \<open>The run on a source file\<close>

type_synonym RuleFailure = "nat \<times> nat \<times> string"

definition createFailure :: "nat \<Rightarrow> nat \<Rightarrow> string \<Rightarrow> RuleFailure" where
  "createFailure start width message = (start, width, message)"

definition FAILURE_UNUSED_PROP :: string where
  "FAILURE_UNUSED_PROP = ''Unused React property defined in interface: ''"

definition FAILURE_UNUSED_STATE :: string where
  "FAILURE_UNUSED_STATE = ''Unused React state defined in interface: ''"

text \<open>
  The two \<^verbatim>\<open>forEach\<close> loops at the end of \<^verbatim>\<open>visitSourceFile\<close>, one finding for each
  name. Calling \<^verbatim>\<open>getStart()\<close> on \<^verbatim>\<open>undefined\<close> throws: a name that is no key of the
  object ends the run with a \<open>TypeError\<close>. The sink \<^verbatim>\<open>addFailure\<close> is the host's; the
  findings are listed in the order they are handed to it.
\<close>

datatype error = TypeError

fun addFailures :: "string \<Rightarrow> Object \<Rightarrow> string list \<Rightarrow> error + RuleFailure list" where
  "addFailures message nodes [] = Inr []"
| "addFailures message nodes (n # ns) =
     (case map_of nodes n of
        None \<Rightarrow> Inl TypeError
      | Some typeElement \<Rightarrow>
          (case addFailures message nodes ns of
             Inl e \<Rightarrow> Inl e
           | Inr fs \<Rightarrow>
               Inr (createFailure (getStart typeElement) (getWidth typeElement) (message @ n)
                    # fs)))"

text \<open>
  \<^verbatim>\<open>classDeclarations.forEach(this.walkChildren, this)\<close>: \<^verbatim>\<open>forEach\<close> fixes its range
  when it starts, so a class declaration stored during the scan is not walked.
\<close>

fun walkClasses :: "Node list \<Rightarrow> Walker \<Rightarrow> Walker" where
  "walkClasses [] w = w"
| "walkClasses (c # cs) w = walkClasses cs (walkChildren (ParentNode c) (children c) w)"

text \<open>\<^verbatim>\<open>visitSourceFile\<close> in its three steps: collect, scan the classes, report.\<close>

definition collect :: "SourceFile \<Rightarrow> Walker" where
  "collect sourceFile = walkChildren ParentSourceFile (statements sourceFile) newWalker"

definition scan :: "Walker \<Rightarrow> Walker" where
  "scan w = (if length (propNames w) > 0 \<or> length (stateNames w) > 0
             then walkClasses (classDeclarations w) w else w)"

definition report :: "Walker \<Rightarrow> error + RuleFailure list" where
  "report w =
     (case addFailures FAILURE_UNUSED_PROP (propNodes w) (propNames w) of
        Inl e \<Rightarrow> Inl e
      | Inr ps \<Rightarrow>
          (case addFailures FAILURE_UNUSED_STATE (stateNodes w) (stateNames w) of
             Inl e \<Rightarrow> Inl e
           | Inr ss \<Rightarrow> Inr (ps @ ss)))"

definition visitSourceFile :: "SourceFile \<Rightarrow> error + RuleFailure list" where
  "visitSourceFile sourceFile = report (scan (collect sourceFile))"

text \<open>\<^verbatim>\<open>Rule.apply\<close>: a walker is made for a JSX file only.\<close>

definition Rule_apply :: "SourceFile \<Rightarrow> error + RuleFailure list" where
  "Rule_apply sourceFile =
     (if languageVariant sourceFile = JSX then visitSourceFile sourceFile else Inr [])"

section \<open>The run, with the visits it makes written down\<close>

text \<open>
  The same run, keeping beside the walker the list of the visits made so far, in their
  order: the visit of the source file and the visit of each node. Every equation is the
  one of the walk above with the visited node appended to the list; nothing else reads
  or writes the list.
\<close>

datatype Visit = VisitSourceFile | VisitNode Node

fun visitNodeLogged :: "Parent \<Rightarrow> Node \<Rightarrow> Walker \<times> Visit list \<Rightarrow> Walker \<times> Visit list"
  and walkChildrenLogged :: "Parent \<Rightarrow> Node list \<Rightarrow> Walker \<times> Visit list \<Rightarrow> Walker \<times> Visit list"
  where
  "visitNodeLogged p (ClassDeclaration cs) (w, l) =
     (w\<lparr> classDeclarations := classDeclarations w @ [ClassDeclaration cs] \<rparr>,
      l @ [VisitNode (ClassDeclaration cs)])"
| "visitNodeLogged p (InterfaceDeclaration n ms cs) (w, l) =
     walkChildrenLogged (ParentNode (InterfaceDeclaration n ms cs)) cs
       (visitInterfaceDeclaration n ms w, l @ [VisitNode (InterfaceDeclaration n ms cs)])"
| "visitNodeLogged p (PropertyAccessExpression t cs) (w, l) =
     walkChildrenLogged (ParentNode (PropertyAccessExpression t cs)) cs
       (visitPropertyAccessExpression p t w, l @ [VisitNode (PropertyAccessExpression t cs)])"
| "visitNodeLogged p (Identifier t) (w, l) =
     (visitIdentifier p t w, l @ [VisitNode (Identifier t)])"
| "visitNodeLogged p (Constructor ps cs) (w, l) =
     apfst (\<lambda>w'. w'\<lparr> propsAlias := None \<rparr>)
       (walkChildrenLogged (ParentNode (Constructor ps cs)) cs
          (visitConstructorDeclaration ps w, l @ [VisitNode (Constructor ps cs)]))"
| "visitNodeLogged p (MethodDeclaration n ps cs) (w, l) =
     apfst (\<lambda>w'. w'\<lparr> propsAlias := None, stateAlias := None \<rparr>)
       (walkChildrenLogged (ParentNode (MethodDeclaration n ps cs)) cs
          (visitMethodDeclaration n ps w, l @ [VisitNode (MethodDeclaration n ps cs)]))"
| "visitNodeLogged p (CallExpression t cs) (w, l) =
     walkChildrenLogged (ParentNode (CallExpression t cs)) cs
       (w, l @ [VisitNode (CallExpression t cs)])"
| "visitNodeLogged p (Parameter cs) (w, l) =
     walkChildrenLogged (ParentNode (Parameter cs)) cs (w, l @ [VisitNode (Parameter cs)])"
| "visitNodeLogged p (OtherNode cs) (w, l) =
     walkChildrenLogged (ParentNode (OtherNode cs)) cs (w, l @ [VisitNode (OtherNode cs)])"
| "walkChildrenLogged p [] wl = wl"
| "walkChildrenLogged p (c # cs) wl = walkChildrenLogged p cs (visitNodeLogged p c wl)"

fun walkClassesLogged :: "Node list \<Rightarrow> Walker \<times> Visit list \<Rightarrow> Walker \<times> Visit list" where
  "walkClassesLogged [] wl = wl"
| "walkClassesLogged (c # cs) wl =
     walkClassesLogged cs (walkChildrenLogged (ParentNode c) (children c) wl)"

definition collectLogged :: "SourceFile \<Rightarrow> Walker \<times> Visit list" where
  "collectLogged sourceFile =
     walkChildrenLogged ParentSourceFile (statements sourceFile) (newWalker, [VisitSourceFile])"

definition scanLogged :: "Walker \<times> Visit list \<Rightarrow> Walker \<times> Visit list" where
  "scanLogged wl = (if length (propNames (fst wl)) > 0 \<or> length (stateNames (fst wl)) > 0
                    then walkClassesLogged (classDeclarations (fst wl)) wl else wl)"

definition visitSourceFileLogged :: "SourceFile \<Rightarrow> (error + RuleFailure list) \<times> Visit list" where
  "visitSourceFileLogged sourceFile =
     (report (fst (scanLogged (collectLogged sourceFile))),
      snd (scanLogged (collectLogged sourceFile)))"

text \<open>\<^verbatim>\<open>Rule.apply\<close>: the other branch returns the empty list and calls nothing.\<close>

definition Rule_apply_logged :: "SourceFile \<Rightarrow> (error + RuleFailure list) \<times> Visit list" where
  "Rule_apply_logged sourceFile =
     (if languageVariant sourceFile = JSX then visitSourceFileLogged sourceFile else (Inr [], []))"

section \<open>Shapes of trees the properties speak about\<close>

text \<open>An interface named \<open>c\<close> is declared somewhere in the subtree.\<close>

fun declares :: "string \<Rightarrow> Node \<Rightarrow> bool" where
  "declares c (ClassDeclaration cs) = list_ex (declares c) cs"
| "declares c (InterfaceDeclaration n ms cs) = (n = c \<or> list_ex (declares c) cs)"
| "declares c (PropertyAccessExpression t cs) = list_ex (declares c) cs"
| "declares c (Identifier t) = False"
| "declares c (Constructor ps cs) = list_ex (declares c) cs"
| "declares c (MethodDeclaration n ps cs) = list_ex (declares c) cs"
| "declares c (CallExpression t cs) = list_ex (declares c) cs"
| "declares c (Parameter cs) = list_ex (declares c) cs"
| "declares c (OtherNode cs) = list_ex (declares c) cs"

text \<open>
  A property access with the source text \<open>t\<close> is reached by a walk of the subtree
  (a walk does not enter a class declaration).
\<close>

fun reads :: "string \<Rightarrow> Node \<Rightarrow> bool" where
  "reads t (ClassDeclaration cs) = False"
| "reads t (InterfaceDeclaration n ms cs) = list_ex (reads t) cs"
| "reads t (PropertyAccessExpression u cs) = (u = t \<or> list_ex (reads t) cs)"
| "reads t (Identifier u) = False"
| "reads t (Constructor ps cs) = list_ex (reads t) cs"
| "reads t (MethodDeclaration n ps cs) = list_ex (reads t) cs"
| "reads t (CallExpression u cs) = list_ex (reads t) cs"
| "reads t (Parameter cs) = list_ex (reads t) cs"
| "reads t (OtherNode cs) = list_ex (reads t) cs"

text \<open>
  The same, for an occurrence whose parent is not itself a property access: the
  expression \<open>t\<close> is used as a whole.
\<close>

fun escapes :: "string \<Rightarrow> Parent \<Rightarrow> Node \<Rightarrow> bool" where
  "escapes t p (ClassDeclaration cs) = False"
| "escapes t p (InterfaceDeclaration n ms cs) =
     list_ex (escapes t (ParentNode (InterfaceDeclaration n ms cs))) cs"
| "escapes t p (PropertyAccessExpression u cs) =
     ((u = t \<and> parentKind p \<noteq> KindPropertyAccessExpression)
      \<or> list_ex (escapes t (ParentNode (PropertyAccessExpression u cs))) cs)"
| "escapes t p (Identifier u) = False"
| "escapes t p (Constructor ps cs) = list_ex (escapes t (ParentNode (Constructor ps cs))) cs"
| "escapes t p (MethodDeclaration n ps cs) =
     list_ex (escapes t (ParentNode (MethodDeclaration n ps cs))) cs"
| "escapes t p (CallExpression u cs) = list_ex (escapes t (ParentNode (CallExpression u cs))) cs"
| "escapes t p (Parameter cs) = list_ex (escapes t (ParentNode (Parameter cs))) cs"
| "escapes t p (OtherNode cs) = list_ex (escapes t (ParentNode (OtherNode cs))) cs"

text \<open>
  The names a constructor or a method can bind as the props alias for its subtree.
\<close>

fun constructorAlias :: "NameNode list \<Rightarrow> string list" where
  "constructorAlias [] = []"
| "constructorAlias (n # ns) = (case text_of n of None \<Rightarrow> [] | Some a \<Rightarrow> [a])"

fun methodAlias :: "NameNode \<Rightarrow> NameNode list \<Rightarrow> string list" where
  "methodAlias m [] = []"
| "methodAlias m (n # ns) =
     (if receivesProps (methodNameText m)
      then (case text_of n of None \<Rightarrow> [] | Some a \<Rightarrow> [a]) else [])"

text \<open>
  Nothing in the subtree refers to the Props member \<open>b\<close> or lets the props object
  escape, and the subtree declares no interface named \<^verbatim>\<open>Props\<close>:
  no property access names \<open>b\<close> after \<^verbatim>\<open>this.props.\<close> or after an alias that may be
  bound (\<open>als\<close>), \<^verbatim>\<open>this.props\<close> occurs only as the left side of a property access, and
  an identifier that may be the props alias occurs only as the left side of a property
  access, as a parameter or as an argument of \<^verbatim>\<open>super(...)\<close>.
\<close>

fun spares :: "string \<Rightarrow> string list \<Rightarrow> Parent \<Rightarrow> Node \<Rightarrow> bool" where
  "spares b als p (ClassDeclaration cs) =
     list_all (spares b [] (ParentNode (ClassDeclaration cs))) cs"
| "spares b als p (InterfaceDeclaration n ms cs) =
     (n \<noteq> ''Props''
      \<and> list_all (spares b als (ParentNode (InterfaceDeclaration n ms cs))) cs)"
| "spares b als p (PropertyAccessExpression t cs) =
     ((contains ''this.props.'' t \<longrightarrow> substring t 11 \<noteq> b)
      \<and> list_all (\<lambda>a. aliasRegExpTest a t \<longrightarrow> substring t (length a + 1) \<noteq> b) als
      \<and> (t = ''this.props'' \<longrightarrow> parentKind p = KindPropertyAccessExpression)
      \<and> list_all (spares b als (ParentNode (PropertyAccessExpression t cs))) cs)"
| "spares b als p (Identifier t) =
     (t \<in> set als \<longrightarrow>
        parentKind p = KindPropertyAccessExpression \<or> parentKind p = KindParameter
        \<or> isParentNodeSuperCall p)"
| "spares b als p (Constructor ps cs) =
     list_all (spares b (constructorAlias ps @ als) (ParentNode (Constructor ps cs))) cs"
| "spares b als p (MethodDeclaration n ps cs) =
     list_all (spares b (methodAlias n ps @ als) (ParentNode (MethodDeclaration n ps cs))) cs"
| "spares b als p (CallExpression t cs) =
     list_all (spares b als (ParentNode (CallExpression t cs))) cs"
| "spares b als p (Parameter cs) = list_all (spares b als (ParentNode (Parameter cs))) cs"
| "spares b als p (OtherNode cs) = list_all (spares b als (ParentNode (OtherNode cs))) cs"

text \<open>
  The two ways to read a member in source text, as the trees the parser builds for the
  source names \<open>a\<close> and \<open>x\<close>: the text of the access is the source text, the texts of
  its identifiers are escaped.
\<close>

definition canonicalRead :: "string \<Rightarrow> Node" where
  "canonicalRead x =
     PropertyAccessExpression (''this.props.'' @ x)
       [PropertyAccessExpression ''this.props'' [OtherNode [], Identifier ''props''],
        Identifier (escapeIdentifier x)]"

definition aliasRead :: "string \<Rightarrow> string \<Rightarrow> Node" where
  "aliasRead a x =
     PropertyAccessExpression (a @ ''.'' @ x)
       [Identifier (escapeIdentifier a), Identifier (escapeIdentifier x)]"

text \<open>A member with the source name \<open>n\<close> of an interface: its data and its node.\<close>

definition member :: "string \<Rightarrow> nat \<Rightarrow> nat \<Rightarrow> TypeElement" where
  "member n s w = \<lparr> name = Some (WithText (escapeIdentifier n)), getStart = s, getWidth = w \<rparr>"

definition memberNode :: "string \<Rightarrow> Node" where
  "memberNode n = OtherNode [Identifier (escapeIdentifier n)]"

text \<open>Every name still held as unused is a key of the object that holds its node.\<close>

definition tracked :: "Walker \<Rightarrow> bool" where
  "tracked w =
     (set (propNames w) \<subseteq> fst ` set (propNodes w)
      \<and> set (stateNames w) \<subseteq> fst ` set (stateNodes w))"

text \<open>
  The two contracts are handled alike; these read the fields of the one named \<open>c\<close>
  (\<^verbatim>\<open>Props\<close>, and \<^verbatim>\<open>State\<close> otherwise): its unused set, its member object, the
  expression that stands for its object, and the message of its findings.
\<close>

definition unusedNames :: "string \<Rightarrow> Walker \<Rightarrow> string list" where
  "unusedNames c w = (if c = ''Props'' then propNames w else stateNames w)"

definition memberNodes :: "string \<Rightarrow> Walker \<Rightarrow> Object" where
  "memberNodes c w = (if c = ''Props'' then propNodes w else stateNodes w)"

definition canonicalRoot :: "string \<Rightarrow> string" where
  "canonicalRoot c = (if c = ''Props'' then ''this.props'' else ''this.state'')"

definition failureMessage :: "string \<Rightarrow> string" where
  "failureMessage c = (if c = ''Props'' then FAILURE_UNUSED_PROP else FAILURE_UNUSED_STATE)"

text \<open>The name of a member through which \<^verbatim>\<open>getTypeElementData\<close> stores it, if any.\<close>

definition simpleName :: "TypeElement \<Rightarrow> string option" where
  "simpleName typeElement =
     (case name typeElement of None \<Rightarrow> None | Some n \<Rightarrow> text_of n)"

text \<open>
  What a walk of sparing trees keeps true of the walker: the props alias, when set, is
  one of \<open>als\<close>; every stored class declaration is sparing.
\<close>

definition spared :: "string \<Rightarrow> string list \<Rightarrow> Walker \<Rightarrow> bool" where
  "spared b als w =
     ((case propsAlias w of None \<Rightarrow> True | Some a \<Rightarrow> a \<in> set als)
      \<and> list_all (\<lambda>c. list_all (spares b [] (ParentNode c)) (children c)) (classDeclarations w))"

text \<open>
  A constructor or a method declaration is reached by a walk of the subtree (a walk does
  not enter a class declaration). Leaving one resets the alias fields.
\<close>

fun nestsMethod :: "Node \<Rightarrow> bool" where
  "nestsMethod (ClassDeclaration cs) = False"
| "nestsMethod (InterfaceDeclaration n ms cs) = list_ex nestsMethod cs"
| "nestsMethod (PropertyAccessExpression t cs) = list_ex nestsMethod cs"
| "nestsMethod (Identifier t) = False"
| "nestsMethod (Constructor ps cs) = True"
| "nestsMethod (MethodDeclaration n ps cs) = True"
| "nestsMethod (CallExpression t cs) = list_ex nestsMethod cs"
| "nestsMethod (Parameter cs) = list_ex nestsMethod cs"
| "nestsMethod (OtherNode cs) = list_ex nestsMethod cs"

section \<open>Example files\<close>

text \<open>The expression \<^verbatim>\<open>this.props\<close> used as a whole.\<close>

definition wholeProps :: Node where
  "wholeProps = PropertyAccessExpression ''this.props'' [OtherNode [], Identifier ''props'']"

text \<open>
  \<^verbatim>\<open>interface Props { a; b }\<close>
  \<^verbatim>\<open>class C extends React.Component<Props, {}> {\<close>
  \<^verbatim>\<open>  constructor(props) { super(props); }\<close>
  \<^verbatim>\<open>  render() { return this.props.a; } }\<close>
\<close>

definition interfaceAB :: Node where
  "interfaceAB =
     InterfaceDeclaration ''Props'' [member ''a'' 18 2, member ''b'' 21 1]
       [Identifier ''Props'', memberNode ''a'', memberNode ''b'']"

definition componentReadingA :: Node where
  "componentReadingA =
     ClassDeclaration
       [Identifier ''C'',
        OtherNode [OtherNode [PropertyAccessExpression ''React.Component''
                                [Identifier ''React'', Identifier ''Component''],
                              OtherNode [Identifier ''Props''], OtherNode []]],
        Constructor [WithText ''props'']
          [Parameter [Identifier ''props''],
           OtherNode [OtherNode [CallExpression ''super'' [OtherNode [], Identifier ''props'']]]],
        MethodDeclaration (WithText ''render'') []
          [Identifier ''render'', OtherNode [OtherNode [canonicalRead ''a'']]]]"

definition fileReadingA :: SourceFile where
  "fileReadingA = \<lparr> languageVariant = JSX, statements = [interfaceAB, componentReadingA] \<rparr>"

text \<open>The same text in a file that is not JSX.\<close>

definition fileNotJsx :: SourceFile where
  "fileNotJsx = \<lparr> languageVariant = Standard, statements = [interfaceAB, componentReadingA] \<rparr>"

text \<open>
  \<^verbatim>\<open>interface Props { a }\<close>
  \<^verbatim>\<open>class C { m() { f(this.props); interface Props { z } } }\<close>
\<close>

definition fileEscapeThenDeclare :: SourceFile where
  "fileEscapeThenDeclare =
     \<lparr> languageVariant = JSX,
       statements =
         [InterfaceDeclaration ''Props'' [member ''a'' 18 1] [Identifier ''Props'', memberNode ''a''],
          ClassDeclaration
            [Identifier ''C'',
             MethodDeclaration (WithText ''m'') []
               [Identifier ''m'',
                OtherNode
                  [OtherNode [CallExpression ''f'' [Identifier ''f'', wholeProps]],
                   InterfaceDeclaration ''Props'' [member ''z'' 71 1]
                     [Identifier ''Props'', memberNode ''z'']]]]] \<rparr>"

text \<open>
  \<^verbatim>\<open>interface Props { a }\<close>
  \<^verbatim>\<open>class C extends B { constructor() { super(this.props); } }\<close>
\<close>

definition componentSuperProps :: Node where
  "componentSuperProps =
     ClassDeclaration
       [Identifier ''C'', OtherNode [OtherNode [Identifier ''B'']],
        Constructor []
          [OtherNode [OtherNode [CallExpression ''super'' [OtherNode [], wholeProps]]]]]"

definition fileSuperProps :: SourceFile where
  "fileSuperProps =
     \<lparr> languageVariant = JSX,
       statements =
         [InterfaceDeclaration ''Props'' [member ''a'' 18 1] [Identifier ''Props'', memberNode ''a''],
          componentSuperProps] \<rparr>"

text \<open>
  \<^verbatim>\<open>interface Props { x }\<close>
  \<^verbatim>\<open>class C { constructor(p) { ({ m() {} }); R; } }\<close>
  with the read \<open>R\<close> left open.
\<close>

definition fileNestedMethod :: "Node \<Rightarrow> SourceFile" where
  "fileNestedMethod r =
     \<lparr> languageVariant = JSX,
       statements =
         [InterfaceDeclaration ''Props'' [member ''x'' 18 1] [Identifier ''Props'', memberNode ''x''],
          ClassDeclaration
            [Identifier ''C'',
             Constructor [WithText ''p'']
               [Parameter [Identifier ''p''],
                OtherNode
                  [OtherNode [OtherNode [OtherNode
                     [MethodDeclaration (WithText ''m'') [] [Identifier ''m'', OtherNode []]]]],
                   OtherNode [r]]]]] \<rparr>"

text \<open>
  \<^verbatim>\<open>interface State { y }\<close>
  \<^verbatim>\<open>class C { componentDidUpdate(prevProps, prevState) { super(prevState); } }\<close>
\<close>

definition fileSuperState :: SourceFile where
  "fileSuperState =
     \<lparr> languageVariant = JSX,
       statements =
         [InterfaceDeclaration ''State'' [member ''y'' 18 1] [Identifier ''State'', memberNode ''y''],
          ClassDeclaration
            [Identifier ''C'',
             MethodDeclaration (WithText ''componentDidUpdate'')
               [WithText ''prevProps'', WithText ''prevState'']
               [Identifier ''componentDidUpdate'',
                Parameter [Identifier ''prevProps''], Parameter [Identifier ''prevState''],
                OtherNode [OtherNode [CallExpression ''super''
                                        [OtherNode [], Identifier ''prevState'']]]]]] \<rparr>"

text \<open>
  \<^verbatim>\<open>interface Props { a }\<close>
  \<^verbatim>\<open>function f() { return this.props.a; }\<close>
  \<^verbatim>\<open>interface Props { a }\<close>
\<close>

definition statementsRedeclared :: "Node list" where
  "statementsRedeclared =
     [InterfaceDeclaration ''Props'' [member ''a'' 18 1] [Identifier ''Props'', memberNode ''a''],
      OtherNode [Identifier ''f'', OtherNode [OtherNode [canonicalRead ''a'']]],
      InterfaceDeclaration ''Props'' [member ''a'' 78 1] [Identifier ''Props'', memberNode ''a'']]"

definition fileRedeclared :: SourceFile where
  "fileRedeclared = \<lparr> languageVariant = JSX, statements = statementsRedeclared \<rparr>"

text \<open>
  \<^verbatim>\<open>interface Props { a; b }\<close>
  \<^verbatim>\<open>interface Props { b; c }\<close>
  \<^verbatim>\<open>class C { m() { this.props.b; } }\<close>
\<close>

definition componentReadingB :: Node where
  "componentReadingB =
     ClassDeclaration
       [Identifier ''C'',
        MethodDeclaration (WithText ''m'') []
          [Identifier ''m'', OtherNode [OtherNode [canonicalRead ''b'']]]]"

definition fileTwoDeclarations :: SourceFile where
  "fileTwoDeclarations =
     \<lparr> languageVariant = JSX,
       statements =
         [interfaceAB,
          InterfaceDeclaration ''Props'' [member ''b'' 43 2, member ''c'' 46 1]
            [Identifier ''Props'', memberNode ''b'', memberNode ''c''],
          componentReadingB] \<rparr>"



text \<open>
  \<^verbatim>\<open>interface Props { x }\<close>
  \<^verbatim>\<open>class C { constructor(A) { A.x; } }\<close>
  for a parameter with the source name \<open>A\<close>.
\<close>

definition fileAliasRead :: "string \<Rightarrow> SourceFile" where
  "fileAliasRead a =
     \<lparr> languageVariant = JSX,
       statements =
         [InterfaceDeclaration ''Props'' [member ''x'' 18 1] [Identifier ''Props'', memberNode ''x''],
          ClassDeclaration
            [Identifier ''C'',
             Constructor [WithText (escapeIdentifier a)]
               [Parameter [Identifier (escapeIdentifier a)],
                OtherNode [OtherNode [aliasRead a ''x'']]]]] \<rparr>"

text \<open>
  \<^verbatim>\<open>interface Props { a; b }\<close>
  \<^verbatim>\<open>interface State { s }\<close>
  and the class of the first example, which reads \<^verbatim>\<open>this.props.a\<close> only.
\<close>

definition fileReadingAWithState :: SourceFile where
  "fileReadingAWithState =
     \<lparr> languageVariant = JSX,
       statements =
         [interfaceAB,
          InterfaceDeclaration ''State'' [member ''s'' 43 1] [Identifier ''State'', memberNode ''s''],
          componentReadingA] \<rparr>"

text \<open>
  \<^verbatim>\<open>interface Props { __a; b }\<close>
  \<^verbatim>\<open>class C { render() { return this.props.__a; } }\<close>
\<close>

definition fileUnderscoreMember :: SourceFile where
  "fileUnderscoreMember =
     \<lparr> languageVariant = JSX,
       statements =
         [InterfaceDeclaration ''Props'' [member ''__a'' 18 4, member ''b'' 23 1]
            [Identifier ''Props'', memberNode ''__a'', memberNode ''b''],
          ClassDeclaration
            [Identifier ''C'',
             MethodDeclaration (WithText ''render'') []
               [Identifier ''render'', OtherNode [OtherNode [canonicalRead ''__a'']]]]] \<rparr>"




text \<open>
  \<^verbatim>\<open>interface Props { a }\<close>
  \<^verbatim>\<open>class C { m() { class D { n() { interface Props { b } } } } }\<close>
\<close>

definition fileNestedClassDeclares :: SourceFile where
  "fileNestedClassDeclares =
     \<lparr> languageVariant = JSX,
       statements =
         [InterfaceDeclaration ''Props'' [member ''a'' 18 1] [Identifier ''Props'', memberNode ''a''],
          ClassDeclaration
            [Identifier ''C'',
             MethodDeclaration (WithText ''m'') []
               [Identifier ''m'',
                OtherNode
                  [ClassDeclaration
                     [Identifier ''D'',
                      MethodDeclaration (WithText ''n'') []
                        [Identifier ''n'',
                         OtherNode
                           [InterfaceDeclaration ''Props'' [member ''b'' 72 1]
                              [Identifier ''Props'', memberNode ''b'']]]]]]]] \<rparr>"

text \<open>
  \<^verbatim>\<open>interface Props { x }\<close>
  \<^verbatim>\<open>class C { constructor(p, q = { m() {} }) { p.x; } }\<close>
\<close>

definition fileDefaultNestsMethod :: SourceFile where
  "fileDefaultNestsMethod =
     \<lparr> languageVariant = JSX,
       statements =
         [InterfaceDeclaration ''Props'' [member ''x'' 18 1] [Identifier ''Props'', memberNode ''x''],
          ClassDeclaration
            [Identifier ''C'',
             Constructor [WithText ''p'', WithText ''q'']
               [Parameter [Identifier ''p''],
                Parameter [Identifier ''q'',
                           OtherNode [MethodDeclaration (WithText ''m'') []
                                        [Identifier ''m'', OtherNode []]]],
                OtherNode [OtherNode [aliasRead ''p'' ''x'']]]]] \<rparr>"

section \<open>Strings, objects and the statements of the visit methods\<close>

lemma contains_sublist: "contains pat s \<longleftrightarrow> sublist pat s"
  by (induction s) (auto simp: sublist_Cons_right)

lemma walkChildren_append:
  "walkChildren p (xs @ ys) w = walkChildren p ys (walkChildren p xs w)"
  by (induction xs arbitrary: w) auto

lemma set_Utils_remove [simp]: "set (Utils_remove xs x) = set xs - {x}"
  by (auto simp: Utils_remove_def)

lemma distinct_Utils_remove [simp]: "distinct xs \<Longrightarrow> distinct (Utils_remove xs x)"
  by (simp add: Utils_remove_def)

lemma set_Object_keys [simp]: "set (Object_keys obj) = fst ` set obj"
  by (auto simp: Object_keys_def)

lemma distinct_Object_keys: "distinct (map fst obj) \<Longrightarrow> distinct (Object_keys obj)"
  by (auto simp: Object_keys_def)

lemma distinct_setProperty: "distinct (map fst obj) \<Longrightarrow> distinct (map fst (setProperty obj k v))"
  by (simp add: setProperty_def distinct_update)

lemma distinct_fold_members:
  "distinct (map fst acc) \<Longrightarrow>
   distinct (map fst (fold (\<lambda>typeElement result.
             (case name typeElement of
                None \<Rightarrow> result
              | Some n \<Rightarrow>
                  (case text_of n of
                     None \<Rightarrow> result
                   | Some t \<Rightarrow> setProperty result t typeElement))) ms acc))"
  by (induction ms arbitrary: acc) (auto simp: distinct_setProperty split: option.splits)

lemma distinct_getTypeElementData: "distinct (map fst (getTypeElementData ms))"
  unfolding getTypeElementData_def by (rule distinct_fold_members) simp

(* statement-level field lemmas *)

lemma canonicalAccess_fields [simp]:
  "propNames (canonicalAccess t w) =
     (if contains ''this.props.'' t then Utils_remove (propNames w) (substring t 11) else propNames w)"
  "stateNames (canonicalAccess t w) =
     (if \<not> contains ''this.props.'' t \<and> contains ''this.state.'' t
      then Utils_remove (stateNames w) (substring t 11) else stateNames w)"
  "propNodes (canonicalAccess t w) = propNodes w"
  "stateNodes (canonicalAccess t w) = stateNodes w"
  "classDeclarations (canonicalAccess t w) = classDeclarations w"
  "propsAlias (canonicalAccess t w) = propsAlias w"
  "stateAlias (canonicalAccess t w) = stateAlias w"
  by (simp_all add: canonicalAccess_def)

lemma propsAliasAccess_fields [simp]:
  "propNames (propsAliasAccess t w) =
     (case propsAlias w of None \<Rightarrow> propNames w
      | Some a \<Rightarrow> if aliasRegExpTest a t
                  then Utils_remove (propNames w) (substring t (length a + 1)) else propNames w)"
  "stateNames (propsAliasAccess t w) = stateNames w"
  "propNodes (propsAliasAccess t w) = propNodes w"
  "stateNodes (propsAliasAccess t w) = stateNodes w"
  "classDeclarations (propsAliasAccess t w) = classDeclarations w"
  "propsAlias (propsAliasAccess t w) = propsAlias w"
  "stateAlias (propsAliasAccess t w) = stateAlias w"
  by (simp_all add: propsAliasAccess_def split: option.splits)

lemma stateAliasAccess_fields [simp]:
  "stateNames (stateAliasAccess t w) =
     (case stateAlias w of None \<Rightarrow> stateNames w
      | Some a \<Rightarrow> if aliasRegExpTest a t
                  then Utils_remove (stateNames w) (substring t (length a + 1)) else stateNames w)"
  "propNames (stateAliasAccess t w) = propNames w"
  "propNodes (stateAliasAccess t w) = propNodes w"
  "stateNodes (stateAliasAccess t w) = stateNodes w"
  "classDeclarations (stateAliasAccess t w) = classDeclarations w"
  "propsAlias (stateAliasAccess t w) = propsAlias w"
  "stateAlias (stateAliasAccess t w) = stateAlias w"
  by (simp_all add: stateAliasAccess_def split: option.splits)

lemma escapedReference_fields [simp]:
  "propNames (escapedReference p t w) =
     (if parentKind p \<noteq> KindPropertyAccessExpression \<and> t = ''this.props'' then [] else propNames w)"
  "stateNames (escapedReference p t w) =
     (if parentKind p \<noteq> KindPropertyAccessExpression \<and> t = ''this.state'' then [] else stateNames w)"
  "propNodes (escapedReference p t w) = propNodes w"
  "stateNodes (escapedReference p t w) = stateNodes w"
  "classDeclarations (escapedReference p t w) = classDeclarations w"
  "propsAlias (escapedReference p t w) = propsAlias w"
  "stateAlias (escapedReference p t w) = stateAlias w"
  by (simp_all add: escapedReference_def)

lemma propsAliasReference_fields [simp]:
  "propNames (propsAliasReference p t w) =
     (if propsAlias w = Some t \<and> parentKind p \<noteq> KindPropertyAccessExpression
         \<and> parentKind p \<noteq> KindParameter \<and> \<not> isParentNodeSuperCall p
      then [] else propNames w)"
  "stateNames (propsAliasReference p t w) = stateNames w"
  "propNodes (propsAliasReference p t w) = propNodes w"
  "stateNodes (propsAliasReference p t w) = stateNodes w"
  "classDeclarations (propsAliasReference p t w) = classDeclarations w"
  "propsAlias (propsAliasReference p t w) = propsAlias w"
  "stateAlias (propsAliasReference p t w) = stateAlias w"
  by (auto simp: propsAliasReference_def split: option.splits)

lemma stateAliasReference_fields [simp]:
  "stateNames (stateAliasReference p t w) =
     (if stateAlias w = Some t \<and> parentKind p \<noteq> KindPropertyAccessExpression
         \<and> parentKind p \<noteq> KindParameter
      then [] else stateNames w)"
  "propNames (stateAliasReference p t w) = propNames w"
  "propNodes (stateAliasReference p t w) = propNodes w"
  "stateNodes (stateAliasReference p t w) = stateNodes w"
  "classDeclarations (stateAliasReference p t w) = classDeclarations w"
  "propsAlias (stateAliasReference p t w) = propsAlias w"
  "stateAlias (stateAliasReference p t w) = stateAlias w"
  by (auto simp: stateAliasReference_def split: option.splits)

lemma visitInterfaceDeclaration_fields [simp]:
  "propNames (visitInterfaceDeclaration n ms w) =
     (if n = ''Props'' then Object_keys (getTypeElementData ms) else propNames w)"
  "propNodes (visitInterfaceDeclaration n ms w) =
     (if n = ''Props'' then getTypeElementData ms else propNodes w)"
  "stateNames (visitInterfaceDeclaration n ms w) =
     (if n = ''State'' then Object_keys (getTypeElementData ms) else stateNames w)"
  "stateNodes (visitInterfaceDeclaration n ms w) =
     (if n = ''State'' then getTypeElementData ms else stateNodes w)"
  "classDeclarations (visitInterfaceDeclaration n ms w) = classDeclarations w"
  "propsAlias (visitInterfaceDeclaration n ms w) = propsAlias w"
  "stateAlias (visitInterfaceDeclaration n ms w) = stateAlias w"
  by (simp_all add: visitInterfaceDeclaration_def Let_def)

lemma visitConstructorDeclaration_fields [simp]:
  "classDeclarations (visitConstructorDeclaration ps w) = classDeclarations w"
  "stateAlias (visitConstructorDeclaration ps w) = stateAlias w"
  "propNodes (visitConstructorDeclaration ps w) = propNodes w"
  "stateNodes (visitConstructorDeclaration ps w) = stateNodes w"
  "propNames (visitConstructorDeclaration ps w) = propNames w"
  "stateNames (visitConstructorDeclaration ps w) = stateNames w"
  by (simp_all add: visitConstructorDeclaration_def)

lemma visitConstructorDeclaration_alias [simp]:
  "propsAlias (visitConstructorDeclaration [] w) = propsAlias w"
  "propsAlias (visitConstructorDeclaration (n # ns) w) = text_of n"
  by (simp_all add: visitConstructorDeclaration_def)

lemma visitMethodDeclaration_fields [simp]:
  "classDeclarations (visitMethodDeclaration n ps w) = classDeclarations w"
  "propNodes (visitMethodDeclaration n ps w) = propNodes w"
  "stateNodes (visitMethodDeclaration n ps w) = stateNodes w"
  "propNames (visitMethodDeclaration n ps w) = propNames w"
  "stateNames (visitMethodDeclaration n ps w) = stateNames w"
  by (simp_all add: visitMethodDeclaration_def Let_def)

lemma visitMethodDeclaration_alias [simp]:
  "propsAlias (visitMethodDeclaration m [] w) = propsAlias w"
  "propsAlias (visitMethodDeclaration m (n # ns) w) =
     (if receivesProps (methodNameText m) then text_of n else propsAlias w)"
  "stateAlias (visitMethodDeclaration m [] w) = stateAlias w"
  "stateAlias (visitMethodDeclaration m [n] w) = stateAlias w"
  "stateAlias (visitMethodDeclaration m (n # n' # ns) w) =
     (if receivesState (methodNameText m) then text_of n' else stateAlias w)"
  by (simp_all add: visitMethodDeclaration_def Let_def)

lemma visitPropertyAccessExpression_shrinks:
  "set (propNames (visitPropertyAccessExpression p t w)) \<subseteq> set (propNames w)"
  "set (stateNames (visitPropertyAccessExpression p t w)) \<subseteq> set (stateNames w)"
  by (auto simp: visitPropertyAccessExpression_def split: option.splits)

lemma visitPropertyAccessExpression_frame [simp]:
  "propNodes (visitPropertyAccessExpression p t w) = propNodes w"
  "stateNodes (visitPropertyAccessExpression p t w) = stateNodes w"
  "classDeclarations (visitPropertyAccessExpression p t w) = classDeclarations w"
  "propsAlias (visitPropertyAccessExpression p t w) = propsAlias w"
  "stateAlias (visitPropertyAccessExpression p t w) = stateAlias w"
  by (simp_all add: visitPropertyAccessExpression_def)

lemma visitIdentifier_shrinks:
  "set (propNames (visitIdentifier p t w)) \<subseteq> set (propNames w)"
  "set (stateNames (visitIdentifier p t w)) \<subseteq> set (stateNames w)"
  by (auto simp: visitIdentifier_def)

lemma visitIdentifier_frame [simp]:
  "propNodes (visitIdentifier p t w) = propNodes w"
  "stateNodes (visitIdentifier p t w) = stateNodes w"
  "classDeclarations (visitIdentifier p t w) = classDeclarations w"
  "propsAlias (visitIdentifier p t w) = propsAlias w"
  "stateAlias (visitIdentifier p t w) = stateAlias w"
  by (simp_all add: visitIdentifier_def)

section \<open>The run never reads a missing member\<close>

lemma tracked_visitNode_walkChildren:
  "tracked w \<Longrightarrow> tracked (visitNode p n w)"
  "tracked w \<Longrightarrow> tracked (walkChildren p cs w)"
proof (induction p n w and p cs w rule: visitNode_walkChildren.induct)
  case (1 p cs w)
  then show ?case by (simp add: tracked_def)
next
  case (2 p n ms cs w)
  have "tracked (visitInterfaceDeclaration n ms w)"
    using "2.prems" by (simp add: tracked_def)
  then show ?case using "2.IH" by simp
next
  case (3 p t cs w)
  have "tracked (visitPropertyAccessExpression p t w)"
    using "3.prems" visitPropertyAccessExpression_shrinks[of p t w]
    by (auto simp: tracked_def)
  then show ?case using "3.IH" by simp
next
  case (4 p t w)
  then show ?case using visitIdentifier_shrinks[of p t w] by (auto simp: tracked_def)
next
  case (5 p ps cs w)
  have "tracked (visitConstructorDeclaration ps w)"
    using "5.prems" by (simp add: tracked_def)
  then have "tracked (walkChildren (ParentNode (Constructor ps cs)) cs (visitConstructorDeclaration ps w))"
    using "5.IH" by simp
  then show ?case by (simp add: tracked_def)
next
  case (6 p n ps cs w)
  have "tracked (visitMethodDeclaration n ps w)"
    using "6.prems" by (simp add: tracked_def)
  then have "tracked (walkChildren (ParentNode (MethodDeclaration n ps cs)) cs (visitMethodDeclaration n ps w))"
    using "6.IH" by simp
  then show ?case by (simp add: tracked_def)
qed simp_all

lemma tracked_walkClasses: "tracked w \<Longrightarrow> tracked (walkClasses cs w)"
  by (induction cs arbitrary: w) (simp_all add: tracked_visitNode_walkChildren)

lemma tracked_newWalker: "tracked newWalker"
  by (simp add: tracked_def newWalker_def)

lemma addFailures_total:
  "set ns \<subseteq> fst ` set nodes \<Longrightarrow> \<exists>fs. addFailures m nodes ns = Inr fs"
proof (induction ns)
  case Nil
  then show ?case by simp
next
  case (Cons n ns)
  then obtain fs where fs: "addFailures m nodes ns = Inr fs" by auto
  from Cons.prems have "n \<in> fst ` set nodes" by simp
  then obtain v where "map_of nodes n = Some v"
    by (metis domD dom_map_of_conv_image_fst)
  with fs show ?case by simp
qed


lemma tracked_scan_collect: "tracked (scan (collect sf))"
  by (simp add: scan_def collect_def tracked_walkClasses tracked_visitNode_walkChildren tracked_newWalker)


section \<open>Walks that meet no declaration of a contract\<close>

lemma declares_children: "\<not> declares c n \<Longrightarrow> \<not> list_ex (declares c) (children n)"
  by (cases n) simp_all

lemma undeclared_shrinks:
  assumes c: "c = ''Props'' \<or> c = ''State''"
  shows "\<not> declares c n \<Longrightarrow>
           set (unusedNames c (visitNode p n w)) \<subseteq> set (unusedNames c w)
           \<and> memberNodes c (visitNode p n w) = memberNodes c w"
    and "\<not> list_ex (declares c) cs \<Longrightarrow>
           set (unusedNames c (walkChildren p cs w)) \<subseteq> set (unusedNames c w)
           \<and> memberNodes c (walkChildren p cs w) = memberNodes c w"
proof (induction p n w and p cs w rule: visitNode_walkChildren.induct)
  case (1 p cs w)
  then show ?case by (simp add: unusedNames_def memberNodes_def)
next
  case (2 p n ms cs w)
  have "set (unusedNames c (visitInterfaceDeclaration n ms w)) \<subseteq> set (unusedNames c w)
        \<and> memberNodes c (visitInterfaceDeclaration n ms w) = memberNodes c w"
    using "2.prems" c by (auto simp: unusedNames_def memberNodes_def)
  then show ?case using "2.IH" "2.prems" by fastforce
next
  case (3 p t cs w)
  have "set (unusedNames c (visitPropertyAccessExpression p t w)) \<subseteq> set (unusedNames c w)
        \<and> memberNodes c (visitPropertyAccessExpression p t w) = memberNodes c w"
    using visitPropertyAccessExpression_shrinks[of p t w]
    by (simp add: unusedNames_def memberNodes_def)
  then show ?case using "3.IH" "3.prems" by fastforce
next
  case (4 p t w)
  then show ?case using visitIdentifier_shrinks[of p t w]
    by (simp add: unusedNames_def memberNodes_def)
next
  case (5 p ps cs w)
  have "set (unusedNames c (visitConstructorDeclaration ps w)) \<subseteq> set (unusedNames c w)
        \<and> memberNodes c (visitConstructorDeclaration ps w) = memberNodes c w"
    by (simp add: unusedNames_def memberNodes_def)
  then show ?case using "5.IH" "5.prems" by (fastforce simp: unusedNames_def memberNodes_def)
next
  case (6 p n ps cs w)
  have "set (unusedNames c (visitMethodDeclaration n ps w)) \<subseteq> set (unusedNames c w)
        \<and> memberNodes c (visitMethodDeclaration n ps w) = memberNodes c w"
    by (simp add: unusedNames_def memberNodes_def)
  then show ?case using "6.IH" "6.prems" by (fastforce simp: unusedNames_def memberNodes_def)
next
  case (11 p k ks w)
  then show ?case by fastforce
qed simp_all

lemma escape_clears:
  assumes c: "c = ''Props'' \<or> c = ''State''"
  shows "escapes (canonicalRoot c) p n \<Longrightarrow> \<not> declares c n \<Longrightarrow>
           unusedNames c (visitNode p n w) = []"
    and "list_ex (escapes (canonicalRoot c) p) cs \<Longrightarrow> \<not> list_ex (declares c) cs \<Longrightarrow>
           unusedNames c (walkChildren p cs w) = []"
proof (induction p n w and p cs w rule: visitNode_walkChildren.induct)
  case (3 p t cs w)
  let ?q = "ParentNode (PropertyAccessExpression t cs)"
  let ?w = "visitPropertyAccessExpression p t w"
  from "3.prems" have nd: "\<not> list_ex (declares c) cs" by simp
  show ?case
  proof (cases "list_ex (escapes (canonicalRoot c) ?q) cs")
    case True
    then show ?thesis using "3.IH" nd by simp
  next
    case False
    with "3.prems" have here: "t = canonicalRoot c" "parentKind p \<noteq> KindPropertyAccessExpression"
      by auto
    have "unusedNames c ?w = []"
      using here c
      by (auto simp: unusedNames_def canonicalRoot_def visitPropertyAccessExpression_def)
    moreover have "set (unusedNames c (walkChildren ?q cs ?w)) \<subseteq> set (unusedNames c ?w)"
      using undeclared_shrinks(2)[OF c nd] by simp
    ultimately show ?thesis by simp
  qed
next
  case (5 p ps cs w)
  then show ?case by (auto simp: unusedNames_def split: if_splits)
next
  case (6 p n ps cs w)
  then show ?case by (auto simp: unusedNames_def split: if_splits)
next
  case (11 p k ks w)
  from "11.prems" have ndk: "\<not> declares c k" and ndks: "\<not> list_ex (declares c) ks" by simp_all
  show ?case
  proof (cases "list_ex (escapes (canonicalRoot c) p) ks")
    case True
    then show ?thesis using "11.IH"(2) ndks by simp
  next
    case False
    with "11.prems" have "escapes (canonicalRoot c) p k" by simp
    then have "unusedNames c (visitNode p k w) = []" using "11.IH"(1) ndk by simp
    moreover have "set (unusedNames c (walkChildren p ks (visitNode p k w)))
                     \<subseteq> set (unusedNames c (visitNode p k w))"
      using undeclared_shrinks(2)[OF c ndks] by simp
    ultimately show ?thesis by simp
  qed
qed simp_all

lemma walkClasses_shrinks:
  assumes c: "c = ''Props'' \<or> c = ''State''"
  shows "\<forall>k\<in>set ks. \<not> list_ex (declares c) (children k) \<Longrightarrow>
           set (unusedNames c (walkClasses ks w)) \<subseteq> set (unusedNames c w)
           \<and> memberNodes c (walkClasses ks w) = memberNodes c w"
proof (induction ks arbitrary: w)
  case Nil
  then show ?case by simp
next
  case (Cons k ks)
  let ?w = "walkChildren (ParentNode k) (children k) w"
  have "\<not> list_ex (declares c) (children k)"
    using Cons.prems by simp
  then have "set (unusedNames c ?w) \<subseteq> set (unusedNames c w) \<and> memberNodes c ?w = memberNodes c w"
    using undeclared_shrinks(2)[OF c] by blast
  moreover have "set (unusedNames c (walkClasses ks ?w)) \<subseteq> set (unusedNames c ?w)
                 \<and> memberNodes c (walkClasses ks ?w) = memberNodes c ?w"
    using Cons.IH Cons.prems by simp
  ultimately show ?case by auto
qed

lemma walkClasses_escape:
  assumes c: "c = ''Props'' \<or> c = ''State''"
  shows "k \<in> set ks \<Longrightarrow> list_ex (escapes (canonicalRoot c) (ParentNode k)) (children k) \<Longrightarrow>
         \<forall>k\<in>set ks. \<not> list_ex (declares c) (children k) \<Longrightarrow>
         unusedNames c (walkClasses ks w) = []"
proof (induction ks arbitrary: w)
  case Nil
  then show ?case by simp
next
  case (Cons j ks)
  let ?w = "walkChildren (ParentNode j) (children j) w"
  show ?case
  proof (cases "k = j")
    case True
    have "\<not> list_ex (declares c) (children j)"
      using Cons.prems by simp
    then have "unusedNames c ?w = []"
      using escape_clears(2)[OF c] Cons.prems(2) True by blast
    moreover have "set (unusedNames c (walkClasses ks ?w)) \<subseteq> set (unusedNames c ?w)"
      using walkClasses_shrinks[OF c, of ks ?w] Cons.prems(3) by simp
    ultimately show ?thesis by simp
  next
    case False
    then have "k \<in> set ks" using Cons.prems(1) by simp
    then show ?thesis using Cons.IH Cons.prems by simp
  qed
qed

lemma scan_shrinks:
  assumes c: "c = ''Props'' \<or> c = ''State''"
    and "\<forall>k\<in>set (classDeclarations w). \<not> list_ex (declares c) (children k)"
  shows "set (unusedNames c (scan w)) \<subseteq> set (unusedNames c w)
         \<and> memberNodes c (scan w) = memberNodes c w"
  using walkClasses_shrinks[OF c, of "classDeclarations w" w] assms(2)
  by (simp add: scan_def)

section \<open>Walks that spare a member\<close>

lemma spares_undeclared:
  "spares b als p n \<Longrightarrow> \<not> declares ''Props'' n"
  by (induction b als p n rule: spares.induct) (auto simp: list_all_iff list_ex_iff)

lemma spares_undeclared_list:
  "list_all (spares b als p) cs \<Longrightarrow> \<not> list_ex (declares ''Props'') cs"
  using spares_undeclared by (auto simp: list_all_iff list_ex_iff)

lemma distinct_walk:
  "distinct (propNames w) \<Longrightarrow> distinct (propNames (visitNode p n w))"
  "distinct (propNames w) \<Longrightarrow> distinct (propNames (walkChildren p cs w))"
proof (induction p n w and p cs w rule: visitNode_walkChildren.induct)
  case (2 p n ms cs w)
  have "distinct (propNames (visitInterfaceDeclaration n ms w))"
    using "2.prems" by (simp add: distinct_Object_keys distinct_getTypeElementData)
  then show ?case using "2.IH" by simp
next
  case (3 p t cs w)
  have "distinct (propNames (visitPropertyAccessExpression p t w))"
    using "3.prems" by (simp add: visitPropertyAccessExpression_def split: option.splits)
  then show ?case using "3.IH" by simp
next
  case (4 p t w)
  then show ?case by (simp add: visitIdentifier_def)
qed simp_all

lemma spares_walk:
  "spares b als p n \<Longrightarrow> spared b als w \<Longrightarrow>
     spared b als (visitNode p n w)
     \<and> (b \<in> set (propNames w) \<longrightarrow> b \<in> set (propNames (visitNode p n w)))"
  "list_all (spares b als p) cs \<Longrightarrow> spared b als w \<Longrightarrow>
     spared b als (walkChildren p cs w)
     \<and> (b \<in> set (propNames w) \<longrightarrow> b \<in> set (propNames (walkChildren p cs w)))"
proof (induction p n w and p cs w arbitrary: als and als rule: visitNode_walkChildren.induct)
  case (1 p cs w)
  then show ?case by (simp add: spared_def)
next
  case (2 p n ms cs w)
  have "spared b als (visitInterfaceDeclaration n ms w)
        \<and> (b \<in> set (propNames w) \<longrightarrow> b \<in> set (propNames (visitInterfaceDeclaration n ms w)))"
    using "2.prems" by (simp add: spared_def)
  then show ?case using "2.IH"[of als] "2.prems" by auto
next
  case (3 p t cs w)
  have "spared b als (visitPropertyAccessExpression p t w)
        \<and> (b \<in> set (propNames w) \<longrightarrow> b \<in> set (propNames (visitPropertyAccessExpression p t w)))"
    using "3.prems"
    by (auto simp: spared_def visitPropertyAccessExpression_def list_all_iff Utils_remove_def
             split: option.splits)
  then show ?case using "3.IH"[of als] "3.prems" by auto
next
  case (4 p t w)
  then show ?case
    by (auto simp: spared_def visitIdentifier_def split: option.splits)
next
  case (5 p ps cs w)
  have "spared b (constructorAlias ps @ als) (visitConstructorDeclaration ps w)"
    using "5.prems"(2) by (cases ps) (auto simp: spared_def split: option.splits)
  then have "spared b (constructorAlias ps @ als)
               (walkChildren (ParentNode (Constructor ps cs)) cs (visitConstructorDeclaration ps w))
             \<and> (b \<in> set (propNames w) \<longrightarrow> b \<in> set (propNames
               (walkChildren (ParentNode (Constructor ps cs)) cs (visitConstructorDeclaration ps w))))"
    using "5.IH"[of "constructorAlias ps @ als"] "5.prems" by simp
  then show ?case by (simp add: spared_def)
next
  case (6 p n ps cs w)
  have "spared b (methodAlias n ps @ als) (visitMethodDeclaration n ps w)"
    using "6.prems"(2) by (cases ps) (auto simp: spared_def split: option.splits)
  then have "spared b (methodAlias n ps @ als)
               (walkChildren (ParentNode (MethodDeclaration n ps cs)) cs (visitMethodDeclaration n ps w))
             \<and> (b \<in> set (propNames w) \<longrightarrow> b \<in> set (propNames
               (walkChildren (ParentNode (MethodDeclaration n ps cs)) cs (visitMethodDeclaration n ps w))))"
    using "6.IH"[of "methodAlias n ps @ als"] "6.prems" by simp
  then show ?case by (simp add: spared_def)
next
  case (11 p k ks w)
  then show ?case by fastforce
qed simp_all

lemma contains_prefix: "contains pat (pat @ s)"
  by (simp add: contains_sublist)

lemma substring_append [simp]: "substring (pat @ s) (length pat) = s"
  by (simp add: substring_def)

lemma substring_this_props [simp]: "substring (''this.props.'' @ s) 11 = s"
  by (simp add: substring_def)

lemma reads_removes:
  "reads (''this.props.'' @ a) n \<Longrightarrow> \<not> declares ''Props'' n \<Longrightarrow>
     a \<notin> set (propNames (visitNode p n w))"
  "list_ex (reads (''this.props.'' @ a)) cs \<Longrightarrow> \<not> list_ex (declares ''Props'') cs \<Longrightarrow>
     a \<notin> set (propNames (walkChildren p cs w))"
proof (induction p n w and p cs w rule: visitNode_walkChildren.induct)
  case (3 p t cs w)
  let ?q = "ParentNode (PropertyAccessExpression t cs)"
  let ?w = "visitPropertyAccessExpression p t w"
  from "3.prems" have nd: "\<not> list_ex (declares ''Props'') cs" by simp
  show ?case
  proof (cases "list_ex (reads (''this.props.'' @ a)) cs")
    case True
    then show ?thesis using "3.IH" nd by simp
  next
    case False
    with "3.prems" have t: "t = ''this.props.'' @ a" by simp
    have "a \<notin> set (propNames (canonicalAccess t w))"
      unfolding t using contains_prefix[of "''this.props.''" a] by (simp add: substring_def)
    then have "a \<notin> set (propNames ?w)"
      by (auto simp: visitPropertyAccessExpression_def split: option.splits if_splits)
    moreover have "set (propNames (walkChildren ?q cs ?w)) \<subseteq> set (propNames ?w)"
      using undeclared_shrinks(2)[of "''Props''" cs ?q ?w] nd by (simp add: unusedNames_def)
    ultimately show ?thesis by auto
  qed
next
  case (11 p k ks w)
  from "11.prems" have ndk: "\<not> declares ''Props'' k" and ndks: "\<not> list_ex (declares ''Props'') ks"
    by simp_all
  show ?case
  proof (cases "list_ex (reads (''this.props.'' @ a)) ks")
    case True
    then show ?thesis using "11.IH"(2) ndks by simp
  next
    case False
    with "11.prems" have "reads (''this.props.'' @ a) k" by simp
    then have "a \<notin> set (propNames (visitNode p k w))" using "11.IH"(1) ndk by simp
    moreover have "set (propNames (walkChildren p ks (visitNode p k w)))
                     \<subseteq> set (propNames (visitNode p k w))"
      using undeclared_shrinks(2)[of "''Props''" ks p "visitNode p k w"] ndks
      by (simp add: unusedNames_def)
    ultimately show ?thesis by auto
  qed
qed simp_all

lemma walkClasses_spares:
  "list_all (\<lambda>c. list_all (spares b [] (ParentNode c)) (children c)) ks \<Longrightarrow> spared b [] w \<Longrightarrow>
     spared b [] (walkClasses ks w)
     \<and> (b \<in> set (propNames w) \<longrightarrow> b \<in> set (propNames (walkClasses ks w)))"
proof (induction ks arbitrary: w)
  case Nil
  then show ?case by simp
next
  case (Cons k ks)
  let ?w = "walkChildren (ParentNode k) (children k) w"
  have "spared b [] ?w \<and> (b \<in> set (propNames w) \<longrightarrow> b \<in> set (propNames ?w))"
    using spares_walk(2)[of b "[]" "ParentNode k" "children k" w] Cons.prems by simp
  then show ?case using Cons.IH[of ?w] Cons.prems by simp
qed

lemma walkClasses_distinct:
  "distinct (propNames w) \<Longrightarrow> distinct (propNames (walkClasses ks w))"
  by (induction ks arbitrary: w) (simp_all add: distinct_walk)

lemma walkClasses_reads:
  "list_ex (\<lambda>c. list_ex (reads (''this.props.'' @ a)) (children c)) ks \<Longrightarrow>
   \<forall>k\<in>set ks. \<not> list_ex (declares ''Props'') (children k) \<Longrightarrow>
   a \<notin> set (propNames (walkClasses ks w))"
proof (induction ks arbitrary: w)
  case Nil
  then show ?case by simp
next
  case (Cons k ks)
  let ?w = "walkChildren (ParentNode k) (children k) w"
  show ?case
  proof (cases "list_ex (\<lambda>c. list_ex (reads (''this.props.'' @ a)) (children c)) ks")
    case True
    then show ?thesis using Cons.IH Cons.prems by simp
  next
    case False
    with Cons.prems have "list_ex (reads (''this.props.'' @ a)) (children k)" by simp
    then have "a \<notin> set (propNames ?w)"
      using reads_removes(2) Cons.prems(2) by simp
    moreover have "set (propNames (walkClasses ks ?w)) \<subseteq> set (propNames ?w)"
      using walkClasses_shrinks[of "''Props''" ks ?w] Cons.prems(2) by (simp add: unusedNames_def)
    ultimately show ?thesis by auto
  qed
qed

lemma singleton_list:
  assumes "distinct xs" "set xs = {b}"
  shows "xs = [b]"
proof (cases xs)
  case Nil
  then show ?thesis using assms(2) by simp
next
  case (Cons x ys)
  then have x: "x = b" using assms(2) by auto
  have "set ys \<subseteq> {b}" "b \<notin> set ys"
    using assms Cons x by auto
  then have "ys = []" by (cases ys) auto
  then show ?thesis using Cons x by simp
qed

lemma getTypeElementData_two:
  "simpleName ma = Some a \<Longrightarrow> simpleName mb = Some b \<Longrightarrow> a \<noteq> b \<Longrightarrow>
   a \<noteq> ''__proto__'' \<Longrightarrow> b \<noteq> ''__proto__'' \<Longrightarrow>
   getTypeElementData [ma, mb] = [(a, ma), (b, mb)]"
  by (auto simp: getTypeElementData_def simpleName_def setProperty_def split: option.splits)

lemma spared_newWalker: "spared b [] newWalker"
  by (simp add: spared_def newWalker_def)

section \<open>Members that are not stored\<close>



section \<open>An escape met by the scan\<close>

lemma scan_escape:
  assumes c: "c = ''Props'' \<or> c = ''State''"
    and k: "k \<in> set (classDeclarations w)"
    and e: "list_ex (escapes (canonicalRoot c) (ParentNode k)) (children k)"
    and nd: "\<forall>k\<in>set (classDeclarations w). \<not> list_ex (declares c) (children k)"
  shows "unusedNames c (scan w) = []"
proof (cases "length (propNames w) > 0 \<or> length (stateNames w) > 0")
  case True
  then have "scan w = walkClasses (classDeclarations w) w" by (simp add: scan_def)
  then show ?thesis using walkClasses_escape[OF c k e nd] by simp
next
  case False
  then show ?thesis by (simp add: scan_def unusedNames_def)
qed

section \<open>Reads through an alias\<close>


lemma alias_kept:
  "\<not> nestsMethod n \<Longrightarrow>
     propsAlias (visitNode p n w) = propsAlias w \<and> stateAlias (visitNode p n w) = stateAlias w"
  "\<not> list_ex nestsMethod cs \<Longrightarrow>
     propsAlias (walkChildren p cs w) = propsAlias w \<and> stateAlias (walkChildren p cs w) = stateAlias w"
  by (induction p n w and p cs w rule: visitNode_walkChildren.induct) simp_all

lemma sublist_count: "sublist u t \<Longrightarrow> count_list u c \<le> count_list t c"
  by (auto simp: sublist_def)

lemma dotfree_prefix_eq:
  assumes "CHR ''.'' \<notin> set a" "CHR ''.'' \<notin> set b" "a @ ''.'' @ r = b @ ''.'' @ s"
  shows "a = b"
proof -
  have "takeWhile (\<lambda>c. c \<noteq> CHR ''.'') (a @ ''.'' @ r) = a"
    using assms(1) by (auto simp: takeWhile_tail)
  moreover have "takeWhile (\<lambda>c. c \<noteq> CHR ''.'') (b @ ''.'' @ s) = b"
    using assms(2) by (auto simp: takeWhile_tail)
  ultimately show ?thesis using assms(3) by simp
qed

lemma alias_junk_has_dot:
  assumes s: "sublist (a @ ''.'') t" and np: "\<not> prefix (a @ ''.'') t"
  shows "CHR ''.'' \<in> set (substring t (length a + 1))"
proof -
  from s obtain ps ss where t: "t = ps @ (a @ ''.'') @ ss" by (auto simp: sublist_def)
  have "ps \<noteq> []" using np t by auto
  then have le: "length a + 1 \<le> length (ps @ a)" by (cases ps) auto
  have "drop (length a + 1) ((ps @ a) @ ''.'' @ ss) = drop (length a + 1) (ps @ a) @ ''.'' @ ss"
    using le by simp
  then have "substring t (length a + 1) = drop (length a + 1) (ps @ a) @ ''.'' @ ss"
    by (simp add: substring_def t)
  then show ?thesis by simp
qed

lemma Utils_remove_absent: "x \<notin> set xs \<Longrightarrow> Utils_remove xs x = xs"
  by (induction xs) (auto simp: Utils_remove_def)

lemma propsAliasAccess_after_this:
  assumes al: "propsAlias w = Some a" and a: "CHR ''.'' \<notin> set a" "a \<noteq> ''this''"
    and names: "list_all (\<lambda>n. CHR ''.'' \<notin> set n) (propNames w)"
    and t: "t = ''this'' @ ''.'' @ r"
  shows "propsAliasAccess t w = w"
proof (cases "aliasRegExpTest a t")
  case False
  then show ?thesis using al by (simp add: propsAliasAccess_def)
next
  case True
  then have s: "sublist (a @ ''.'') t"
    by (simp add: aliasRegExpTest_def contains_sublist)
  have np: "\<not> prefix (a @ ''.'') t"
  proof
    assume "prefix (a @ ''.'') t"
    then obtain z where "a @ ''.'' @ z = ''this'' @ ''.'' @ r"
      unfolding t prefix_def by auto
    then have "a = ''this''"
      using dotfree_prefix_eq[of a "''this''" z r] a(1) by simp
    then show False using a(2) by simp
  qed
  have "CHR ''.'' \<in> set (substring t (length a + 1))"
    using alias_junk_has_dot[OF s np] .
  then have "substring t (length a + 1) \<notin> set (propNames w)"
    using names by (auto simp: list_all_iff)
  then have "Utils_remove (propNames w) (substring t (length a + 1)) = propNames w"
    by (rule Utils_remove_absent)
  then show ?thesis using al True by (simp add: propsAliasAccess_def)
qed

lemma visitIdentifier_under_access:
  "visitIdentifier (ParentNode (PropertyAccessExpression t cs)) u w = w"
  by (simp add: visitIdentifier_def propsAliasReference_def stateAliasReference_def
      split: option.splits)

lemma aliasRead_effect:
  assumes al: "propsAlias w = Some a" "stateAlias w = None"
    and a: "CHR ''$'' \<notin> set a" "CHR ''.'' \<notin> set a" "a \<noteq> ''this''"
    and x: "CHR ''.'' \<notin> set x"
  shows "visitNode p (aliasRead a x) w = w\<lparr> propNames := Utils_remove (propNames w) x \<rparr>"
proof -
  define t where "t = a @ ''.'' @ x"
  let ?w = "w\<lparr> propNames := Utils_remove (propNames w) x \<rparr>"
  have one: "count_list t (CHR ''.'') = 1"
    using a(2) x by (simp add: t_def count_list_0_iff)
  have "\<not> sublist ''this.props.'' t"
    using sublist_count[of "''this.props.''" t "CHR ''.''"] one by auto
  moreover have "\<not> sublist ''this.state.'' t"
    using sublist_count[of "''this.state.''" t "CHR ''.''"] one by auto
  ultimately have c: "canonicalAccess t w = w"
    by (simp add: canonicalAccess_def contains_sublist)
  have m: "aliasRegExpTest a t"
    using a(1) contains_prefix[of "a @ ''.''" x] by (simp add: aliasRegExpTest_def t_def)
  have s: "substring t (length a + 1) = x" by (simp add: substring_def t_def)
  have pa: "propsAliasAccess t w = ?w"
    using al(1) m s by (simp add: propsAliasAccess_def)
  have sa: "stateAliasAccess t ?w = ?w"
    using al(2) by (simp add: stateAliasAccess_def)
  have ne: "t \<noteq> ''this.props''" "t \<noteq> ''this.state''"
    using dotfree_prefix_eq[of a "''this''" x "''props''"]
      dotfree_prefix_eq[of a "''this''" x "''state''"] a(2,3) by (auto simp: t_def)
  have er: "escapedReference p t ?w = ?w"
    using ne by (simp add: escapedReference_def)
  have v: "visitPropertyAccessExpression p t w = ?w"
    by (simp only: visitPropertyAccessExpression_def c pa sa er)
  have "visitNode p (aliasRead a x) w =
          walkChildren (ParentNode (PropertyAccessExpression t
              [Identifier (escapeIdentifier a), Identifier (escapeIdentifier x)]))
            [Identifier (escapeIdentifier a), Identifier (escapeIdentifier x)]
            (visitPropertyAccessExpression p t w)"
    by (simp add: aliasRead_def t_def)
  also have "\<dots> = ?w"
    by (simp add: v visitIdentifier_under_access)
  finally show ?thesis .
qed

lemma canonicalRead_effect:
  assumes al: "propsAlias w = Some a" "stateAlias w = None"
    and a: "CHR ''.'' \<notin> set a" "a \<noteq> ''this''"
    and names: "list_all (\<lambda>n. CHR ''.'' \<notin> set n) (propNames w)"
  shows "visitNode p (canonicalRead x) w = w\<lparr> propNames := Utils_remove (propNames w) x \<rparr>"
proof -
  define t where "t = ''this.props.'' @ x"
  define u where "u = ''this.props''"
  let ?w = "w\<lparr> propNames := Utils_remove (propNames w) x \<rparr>"
  have c: "canonicalAccess t w = ?w"
    using contains_prefix[of "''this.props.''" x]
    by (simp add: canonicalAccess_def substring_def t_def)
  have al': "propsAlias ?w = Some a" "stateAlias ?w = None"
    using al by simp_all
  have names': "list_all (\<lambda>n. CHR ''.'' \<notin> set n) (propNames ?w)"
    using names by (auto simp: list_all_iff)
  have pa: "propsAliasAccess t ?w = ?w"
    by (rule propsAliasAccess_after_this[OF al'(1) a names', of _ "''props.'' @ x"])
      (simp add: t_def)
  have sa: "stateAliasAccess t ?w = ?w" "stateAliasAccess u ?w = ?w"
    using al(2) by (simp_all add: stateAliasAccess_def)
  have er: "escapedReference p t ?w = ?w"
    by (simp add: escapedReference_def t_def)
  have v: "visitPropertyAccessExpression p t w = ?w"
    by (simp only: visitPropertyAccessExpression_def c pa sa er)
  define q where "q = ParentNode (PropertyAccessExpression t
       [PropertyAccessExpression u [OtherNode [], Identifier ''props''],
        Identifier (escapeIdentifier x)])"
  have ci: "canonicalAccess u ?w = ?w"
    by (simp add: canonicalAccess_def u_def)
  have pi: "propsAliasAccess u ?w = ?w"
    by (rule propsAliasAccess_after_this[OF al'(1) a names', of _ "''props''"])
      (simp add: u_def)
  have ei: "escapedReference q u ?w = ?w"
    by (simp add: escapedReference_def q_def)
  have vi: "visitPropertyAccessExpression q u ?w = ?w"
    by (simp only: visitPropertyAccessExpression_def ci pi sa ei)
  have "visitNode p (canonicalRead x) w =
          walkChildren q [PropertyAccessExpression u [OtherNode [], Identifier ''props''],
                           Identifier (escapeIdentifier x)] (visitPropertyAccessExpression p t w)"
    by (simp add: canonicalRead_def t_def u_def q_def)
  also have "\<dots> = ?w"
    by (simp add: v vi[unfolded q_def] visitIdentifier_under_access q_def)
  finally show ?thesis .
qed

lemma visitNode_parent:
  assumes "parentKind p = parentKind q" "isParentNodeSuperCall p = isParentNodeSuperCall q"
  shows "visitNode p n w = visitNode q n w"
proof -
  define k where "k = parentKind q"
  define b where "b = isParentNodeSuperCall q"
  have pq: "parentKind p = k" "parentKind q = k" "isParentNodeSuperCall p = b"
    "isParentNodeSuperCall q = b"
    using assms by (simp_all add: k_def b_def)
  have "escapedReference p t v = escapedReference q t v" for t v
    by (simp add: escapedReference_def pq)
  moreover have "propsAliasReference p t v = propsAliasReference q t v" for t v
    by (simp add: propsAliasReference_def pq split: option.split)
  moreover have "stateAliasReference p t v = stateAliasReference q t v" for t v
    by (simp add: stateAliasReference_def pq split: option.split)
  ultimately show ?thesis
    by (cases n) (simp_all add: visitPropertyAccessExpression_def visitIdentifier_def)
qed

lemma walkChildren_parent:
  "parentKind p = parentKind q \<Longrightarrow> isParentNodeSuperCall p = isParentNodeSuperCall q \<Longrightarrow>
   walkChildren p cs w = walkChildren q cs w"
  by (induction cs arbitrary: w) (simp_all add: visitNode_parent[of p q])

lemma dotfree_kept:
  assumes "\<not> list_ex (declares ''Props'') cs"
    and "list_all (\<lambda>n. CHR ''.'' \<notin> set n) (propNames w)"
  shows "list_all (\<lambda>n. CHR ''.'' \<notin> set n) (propNames (walkChildren p cs w))"
  using undeclared_shrinks(2)[of "''Props''" cs p w] assms
  by (auto simp: unusedNames_def list_all_iff)

section \<open>Files that declare no interface of a contract\<close>

lemma stored_undeclared:
  "\<not> declares c n \<Longrightarrow> list_all (\<lambda>k. \<not> declares c k) (classDeclarations w) \<Longrightarrow>
     list_all (\<lambda>k. \<not> declares c k) (classDeclarations (visitNode p n w))"
  "\<not> list_ex (declares c) cs \<Longrightarrow> list_all (\<lambda>k. \<not> declares c k) (classDeclarations w) \<Longrightarrow>
     list_all (\<lambda>k. \<not> declares c k) (classDeclarations (walkChildren p cs w))"
  by (induction p n w and p cs w rule: visitNode_walkChildren.induct) simp_all

lemma undeclared_run:
  assumes c: "c = ''Props'' \<or> c = ''State''"
    and nd: "\<not> list_ex (declares c) (statements sf)"
  shows "unusedNames c (scan (collect sf)) = []"
proof -
  have "set (unusedNames c (collect sf)) \<subseteq> set (unusedNames c newWalker)"
    unfolding collect_def using undeclared_shrinks(2)[OF c nd] by simp
  then have e: "unusedNames c (collect sf) = []"
    by (simp add: unusedNames_def newWalker_def split: if_splits)
  have "list_all (\<lambda>k. \<not> declares c k) (classDeclarations (collect sf))"
    unfolding collect_def by (rule stored_undeclared(2)[OF nd]) (simp add: newWalker_def)
  then have "\<forall>k\<in>set (classDeclarations (collect sf)). \<not> list_ex (declares c) (children k)"
    using declares_children by (auto simp: list_all_iff)
  then have "set (unusedNames c (scan (collect sf))) \<subseteq> set (unusedNames c (collect sf))"
    using scan_shrinks[OF c] by simp
  then show ?thesis using e by simp
qed

section \<open>A read in the body of a constructor or a method\<close>

lemma escapeIdentifier_plain: "\<not> prefix ''__'' a \<Longrightarrow> escapeIdentifier a = a"
  by (simp add: escapeIdentifier_def)

lemma body_walk:
  "visitNode q (OtherNode (pre @ [OtherNode [r]] @ post)) v =
     walkChildren (ParentNode (OtherNode [])) post
       (visitNode (ParentNode (OtherNode [])) r
          (walkChildren (ParentNode (OtherNode [])) pre v))"
proof -
  let ?qb = "ParentNode (OtherNode [])"
  define bs where "bs = pre @ [OtherNode [r]] @ post"
  have 1: "visitNode q (OtherNode bs) v = walkChildren (ParentNode (OtherNode bs)) bs v"
    by simp
  have 2: "walkChildren (ParentNode (OtherNode bs)) bs v = walkChildren ?qb bs v"
    by (rule walkChildren_parent) simp_all
  have 3: "walkChildren ?qb bs v =
             walkChildren ?qb post (visitNode ?qb (OtherNode [r]) (walkChildren ?qb pre v))"
    by (simp add: bs_def walkChildren_append)
  have 4: "visitNode ?qb (OtherNode [r]) u = visitNode (ParentNode (OtherNode [r])) r u" for u
    by simp
  have 5: "visitNode (ParentNode (OtherNode [r])) r u = visitNode ?qb r u" for u
    by (rule visitNode_parent) simp_all
  show ?thesis
    unfolding bs_def[symmetric] by (simp only: 1 2 3 4 5)
qed

lemma constructor_walk:
  "visitNode p (Constructor ps (before @ [OtherNode (pre @ [OtherNode [r]] @ post)] @ after)) w =
     (walkChildren (ParentNode (Constructor ps [])) after
        (walkChildren (ParentNode (OtherNode [])) post
           (visitNode (ParentNode (OtherNode [])) r
              (walkChildren (ParentNode (OtherNode [])) pre
                 (walkChildren (ParentNode (Constructor ps [])) before
                    (visitConstructorDeclaration ps w))))))
       \<lparr> propsAlias := None \<rparr>"
proof -
  let ?qc = "ParentNode (Constructor ps [])"
  define b where "b = OtherNode (pre @ [OtherNode [r]] @ post)"
  define cs where "cs = before @ [b] @ after"
  have 1: "visitNode p (Constructor ps cs) w =
             (walkChildren (ParentNode (Constructor ps cs)) cs (visitConstructorDeclaration ps w))
               \<lparr> propsAlias := None \<rparr>"
    by simp
  have 2: "walkChildren (ParentNode (Constructor ps cs)) cs v = walkChildren ?qc cs v" for v
    by (rule walkChildren_parent) simp_all
  have 3: "walkChildren ?qc cs v = walkChildren ?qc after (visitNode ?qc b (walkChildren ?qc before v))"
    for v
    by (simp add: cs_def walkChildren_append)
  show ?thesis
    unfolding b_def[symmetric] cs_def[symmetric]
    by (simp only: 1 2 3) (simp only: b_def body_walk)
qed


section \<open>Reads through the state alias\<close>




section \<open>The visits written down\<close>

lemma logged_agrees:
  "fst (visitNodeLogged p n wl) = visitNode p n (fst wl)"
  "fst (walkChildrenLogged p cs wl) = walkChildren p cs (fst wl)"
  by (induction p n wl and p cs wl rule: visitNodeLogged_walkChildrenLogged.induct) simp_all

lemma walkClassesLogged_agrees:
  "fst (walkClassesLogged ks wl) = walkClasses ks (fst wl)"
  by (induction ks arbitrary: wl) (simp_all add: logged_agrees)

lemma Rule_apply_logged_agrees: "fst (Rule_apply_logged sf) = Rule_apply sf"
  by (simp add: Rule_apply_logged_def Rule_apply_def visitSourceFileLogged_def visitSourceFile_def
      scanLogged_def scan_def collectLogged_def collect_def walkClassesLogged_agrees logged_agrees)



lemma logged_keeps:
  "v \<in> set (snd wl) \<Longrightarrow> v \<in> set (snd (visitNodeLogged p n wl))"
  "v \<in> set (snd wl) \<Longrightarrow> v \<in> set (snd (walkChildrenLogged p cs wl))"
  by (induction p n wl and p cs wl rule: visitNodeLogged_walkChildrenLogged.induct) simp_all

lemma logged_visits:
  "VisitNode n \<in> set (snd (visitNodeLogged p n wl))"
proof (cases wl)
  case (Pair w l)
  show ?thesis unfolding Pair by (cases n) (simp_all add: logged_keeps)
qed

lemma logged_visits_children:
  "c \<in> set cs \<Longrightarrow> VisitNode c \<in> set (snd (walkChildrenLogged p cs wl))"
proof (induction cs arbitrary: wl)
  case Nil
  then show ?case by simp
next
  case (Cons k ks)
  show ?case
  proof (cases "c \<in> set ks")
    case True
    then show ?thesis using Cons.IH[of "visitNodeLogged p k wl"] by simp
  next
    case False
    then have "c = k" using Cons.prems by simp
    then show ?thesis
      using logged_keeps(2)[OF logged_visits[of k p wl], of p ks] by simp
  qed
qed

lemma walkClassesLogged_keeps:
  "v \<in> set (snd wl) \<Longrightarrow> v \<in> set (snd (walkClassesLogged ks wl))"
  by (induction ks arbitrary: wl) (simp_all add: logged_keeps)

lemma scanLogged_keeps: "v \<in> set (snd wl) \<Longrightarrow> v \<in> set (snd (scanLogged wl))"
  by (simp add: scanLogged_def walkClassesLogged_keeps)

section \<open>The claims\<close>

text \<open>
  Claim C1, as amended. In a JSX file whose statements hold one interface named
  \<^verbatim>\<open>Props\<close> with two members, whose names have the texts \<open>a\<close> and \<open>b\<close>, where a
  class stored by the first pass holds a property access with the source text
  \<^verbatim>\<open>this.props.\<close> followed by \<open>a\<close>, and nothing in the file names \<open>b\<close> after
  \<^verbatim>\<open>this.props.\<close> or after a props alias, uses \<^verbatim>\<open>this.props\<close> or a props alias as a whole,
  or declares another interface named \<^verbatim>\<open>Props\<close>: the Props unused set ends as \<open>b\<close>
  alone, and the findings are the one for \<open>b\<close>, with the span of the member \<open>b\<close>,
  followed by the findings for the State members still unused. It is the only finding
  when no interface named \<^verbatim>\<open>State\<close> is declared in the file.
\<close>

theorem C1_unused_member_reported:
  assumes jsx: "languageVariant sf = JSX"
    and stmts: "statements sf = pre @ [InterfaceDeclaration ''Props'' [ma, mb] ics] @ post"
    and ma: "simpleName ma = Some a" and mb: "simpleName mb = Some b"
    and ab: "a \<noteq> b" "a \<noteq> ''__proto__''" "b \<noteq> ''__proto__''"
    and outer: "list_all (spares b [] ParentSourceFile) (pre @ post)"
    and inner: "list_all (spares b [] (ParentNode (InterfaceDeclaration ''Props'' [ma, mb] ics))) ics"
    and rd: "list_ex (\<lambda>c. list_ex (reads (''this.props.'' @ a)) (children c))
               (classDeclarations (collect sf))"
  shows "propNames (scan (collect sf)) = [b]
     \<and> (\<exists>ss. addFailures FAILURE_UNUSED_STATE (stateNodes (scan (collect sf)))
                (stateNames (scan (collect sf))) = Inr ss
             \<and> Rule_apply sf =
                 Inr (createFailure (getStart mb) (getWidth mb) (FAILURE_UNUSED_PROP @ b) # ss))
     \<and> (\<not> list_ex (declares ''State'') (statements sf) \<longrightarrow>
          Rule_apply sf =
            Inr [createFailure (getStart mb) (getWidth mb) (FAILURE_UNUSED_PROP @ b)])"
proof -
  let ?i = "InterfaceDeclaration ''Props'' [ma, mb] ics"
  let ?data = "[(a, ma), (b, mb)]"
  let ?fb = "createFailure (getStart mb) (getWidth mb) (FAILURE_UNUSED_PROP @ b)"
  define w1 where "w1 = walkChildren ParentSourceFile pre newWalker"
  define w2 where "w2 = visitInterfaceDeclaration ''Props'' [ma, mb] w1"
  define w3 where "w3 = walkChildren (ParentNode ?i) ics w2"
  define w4 where "w4 = walkChildren ParentSourceFile post w3"
  have data: "getTypeElementData [ma, mb] = ?data"
    using ma mb ab by (rule getTypeElementData_two)
  have pre: "list_all (spares b [] ParentSourceFile) pre"
    and post: "list_all (spares b [] ParentSourceFile) post"
    using outer by simp_all
  have c: "collect sf = w4"
    by (simp add: collect_def stmts walkChildren_append w1_def w2_def w3_def w4_def)
  have s1: "spared b [] w1"
    unfolding w1_def using spares_walk(2)[OF pre spared_newWalker] by simp
  have s2: "spared b [] w2"
    using s1 by (simp add: w2_def spared_def)
  have n2: "set (propNames w2) = {a, b}" "distinct (propNames w2)" "propNodes w2 = ?data"
    using distinct_Object_keys[OF distinct_getTypeElementData, of "[ma, mb]"]
    by (auto simp: w2_def data)
  have s3: "spared b [] w3" "b \<in> set (propNames w3)"
    unfolding w3_def using spares_walk(2)[OF inner s2] n2(1) by simp_all
  have n3: "set (propNames w3) \<subseteq> {a, b}" "distinct (propNames w3)" "propNodes w3 = ?data"
    unfolding w3_def
    using undeclared_shrinks(2)[of "''Props''" ics "ParentNode ?i" w2]
      spares_undeclared_list[OF inner] n2 distinct_walk(2)[of w2 "ParentNode ?i" ics]
    by (simp_all add: unusedNames_def memberNodes_def)
  have s4: "spared b [] w4" "b \<in> set (propNames w4)"
    unfolding w4_def using spares_walk(2)[OF post s3(1)] s3(2) by simp_all
  have n4: "set (propNames w4) \<subseteq> {a, b}" "distinct (propNames w4)" "propNodes w4 = ?data"
    unfolding w4_def
    using undeclared_shrinks(2)[of "''Props''" post ParentSourceFile w3]
      spares_undeclared_list[OF post] n3 distinct_walk(2)[of w3 ParentSourceFile post]
    by (auto simp: unusedNames_def memberNodes_def)
  let ?ks = "classDeclarations w4"
  define w5 where "w5 = walkClasses ?ks w4"
  have ks: "list_all (\<lambda>c. list_all (spares b [] (ParentNode c)) (children c)) ?ks"
    using s4(1) by (simp add: spared_def)
  then have nd: "\<forall>k\<in>set ?ks. \<not> list_ex (declares ''Props'') (children k)"
    using spares_undeclared_list by (auto simp: list_all_iff)
  have sc: "scan w4 = w5"
    using s4(2) by (auto simp: scan_def w5_def)
  have s5: "b \<in> set (propNames w5)"
    unfolding w5_def using walkClasses_spares[OF ks s4(1)] s4(2) by simp
  have n5: "set (propNames w5) \<subseteq> {a, b}" "distinct (propNames w5)" "propNodes w5 = ?data"
    unfolding w5_def
    using walkClasses_shrinks[of "''Props''" ?ks w4] nd n4 walkClasses_distinct[of w4 ?ks]
    by (auto simp: unusedNames_def memberNodes_def)
  have "a \<notin> set (propNames w5)"
    unfolding w5_def using walkClasses_reads[OF _ nd] rd c by simp
  then have "set (propNames w5) = {b}"
    using n5(1) s5 by auto
  then have names: "propNames w5 = [b]"
    using n5(2) by (rule singleton_list[rotated])
  have w5: "scan (collect sf) = w5"
    by (simp add: c sc)
  have pf: "addFailures FAILURE_UNUSED_PROP (propNodes w5) (propNames w5) = Inr [?fb]"
    using ab(1) by (simp add: names n5(3))
  have "tracked w5"
    using tracked_scan_collect[of sf] by (simp add: w5)
  then obtain ss where
    ss: "addFailures FAILURE_UNUSED_STATE (stateNodes w5) (stateNames w5) = Inr ss"
    using addFailures_total unfolding tracked_def by blast
  have run: "Rule_apply sf = Inr (?fb # ss)"
    by (simp add: Rule_apply_def jsx visitSourceFile_def w5 report_def pf ss)
  have none: "Rule_apply sf = Inr [?fb]" if "\<not> list_ex (declares ''State'') (statements sf)"
  proof -
    have "stateNames w5 = []"
      using undeclared_run[of "''State''" sf] that by (simp add: unusedNames_def w5)
    then have "ss = []" using ss by simp
    then show ?thesis using run by simp
  qed
  show ?thesis
    using names ss run none by (simp add: w5)
qed

theorem C1_unused_member_reported_witness:
  "list_all (spares ''b'' [] ParentSourceFile) [componentReadingA]
   \<and> list_ex (\<lambda>c. list_ex (reads (''this.props.'' @ ''a'')) (children c))
         (classDeclarations (collect fileReadingA))
   \<and> \<not> list_ex (declares ''State'') (statements fileReadingA)
   \<and> propNames (scan (collect fileReadingA)) = [''b'']
   \<and> Rule_apply fileReadingA = Inr [createFailure 21 1 (FAILURE_UNUSED_PROP @ ''b'')]"
proof -
  have jsx: "languageVariant fileReadingA = JSX"
    by (simp add: fileReadingA_def)
  have stmts: "statements fileReadingA =
      [] @ [InterfaceDeclaration ''Props'' [member ''a'' 18 2, member ''b'' 21 1]
             [Identifier ''Props'', memberNode ''a'', memberNode ''b'']] @ [componentReadingA]"
    by code_simp
  have ma: "simpleName (member ''a'' 18 2) = Some ''a''"
    and mb: "simpleName (member ''b'' 21 1) = Some ''b''"
    by code_simp+
  have outer: "list_all (spares ''b'' [] ParentSourceFile) ([] @ [componentReadingA])"
    by code_simp
  have inner: "list_all (spares ''b'' []
      (ParentNode (InterfaceDeclaration ''Props'' [member ''a'' 18 2, member ''b'' 21 1]
             [Identifier ''Props'', memberNode ''a'', memberNode ''b''])))
      [Identifier ''Props'', memberNode ''a'', memberNode ''b'']"
    by code_simp
  have rd: "list_ex (\<lambda>c. list_ex (reads (''this.props.'' @ ''a'')) (children c))
         (classDeclarations (collect fileReadingA))"
    by code_simp
  have ns: "\<not> list_ex (declares ''State'') (statements fileReadingA)"
    by code_simp
  show ?thesis
    using C1_unused_member_reported[OF jsx stmts ma mb _ _ _ outer inner rd] outer rd ns
    by (simp add: member_def)
qed

theorem C1_counterexample:
  "list_ex (\<lambda>c. list_ex (reads ''this.props.a'') (children c))
     (classDeclarations (collect fileReadingAWithState))
   \<and> Rule_apply fileReadingAWithState =
       Inr [createFailure 21 1 (FAILURE_UNUSED_PROP @ ''b''),
            createFailure 43 1 (FAILURE_UNUSED_STATE @ ''s'')]
   \<and> list_ex (\<lambda>c. list_ex (reads ''this.props.__a'') (children c))
     (classDeclarations (collect fileUnderscoreMember))
   \<and> Rule_apply fileUnderscoreMember =
       Inr [createFailure 18 4 (FAILURE_UNUSED_PROP @ ''___a''),
            createFailure 23 1 (FAILURE_UNUSED_PROP @ ''b'')]"
  by code_simp

text \<open>
  Claim C2, as amended. For the contract \<open>c\<close> (\<^verbatim>\<open>Props\<close> or \<^verbatim>\<open>State\<close>): a visit of the
  expression \<^verbatim>\<open>this.props\<close> (\<^verbatim>\<open>this.state\<close>) under a parent that is not a property
  access, whatever that parent is, empties the contract's unused set; and when the scan
  reaches such an occurrence in a stored class and no stored class declares an
  interface named \<open>c\<close>, the set is empty at the end of the scan and no finding is made
  for the contract.
\<close>

theorem C2_escape_clears:
  assumes "c = ''Props'' \<or> c = ''State''"
  shows "(parentKind p \<noteq> KindPropertyAccessExpression \<longrightarrow>
            unusedNames c (visitPropertyAccessExpression p (canonicalRoot c) w) = [])
         \<and> (list_ex (\<lambda>k. list_ex (escapes (canonicalRoot c) (ParentNode k)) (children k))
               (classDeclarations (collect sf))
             \<and> list_all (\<lambda>k. \<not> declares c k) (classDeclarations (collect sf)) \<longrightarrow>
               unusedNames c (scan (collect sf)) = []
               \<and> addFailures (failureMessage c) (memberNodes c (scan (collect sf)))
                    (unusedNames c (scan (collect sf))) = Inr [])"
proof -
  have a: "parentKind p \<noteq> KindPropertyAccessExpression \<longrightarrow>
            unusedNames c (visitPropertyAccessExpression p (canonicalRoot c) w) = []"
    using assms by (auto simp: unusedNames_def canonicalRoot_def visitPropertyAccessExpression_def)
  have b: "unusedNames c (scan (collect sf)) = []"
    if e: "list_ex (\<lambda>k. list_ex (escapes (canonicalRoot c) (ParentNode k)) (children k))
               (classDeclarations (collect sf))"
      and nd: "list_all (\<lambda>k. \<not> declares c k) (classDeclarations (collect sf))"
  proof -
    from e obtain k where k: "k \<in> set (classDeclarations (collect sf))"
      "list_ex (escapes (canonicalRoot c) (ParentNode k)) (children k)"
      by (auto simp: list_ex_iff)
    have "\<forall>k\<in>set (classDeclarations (collect sf)). \<not> list_ex (declares c) (children k)"
      using nd declares_children by (auto simp: list_all_iff)
    then show ?thesis using scan_escape[OF assms k] by simp
  qed
  show ?thesis using a b by simp
qed

theorem C2_escape_clears_witness:
  "parentKind (ParentNode (CallExpression ''super'' [OtherNode [], wholeProps]))
     \<noteq> KindPropertyAccessExpression
   \<and> list_ex (\<lambda>k. list_ex (escapes ''this.props'' (ParentNode k)) (children k))
        (classDeclarations (collect fileSuperProps))
   \<and> list_all (\<lambda>k. \<not> declares ''Props'' k) (classDeclarations (collect fileSuperProps))
   \<and> propNames (collect fileSuperProps) = [''a'']
   \<and> propNames (visitPropertyAccessExpression
         (ParentNode (CallExpression ''super'' [OtherNode [], wholeProps])) ''this.props''
         (collect fileSuperProps)) = []
   \<and> propNames (scan (collect fileSuperProps)) = []
   \<and> Rule_apply fileSuperProps = Inr []"
proof -
  have e: "list_ex (\<lambda>k. list_ex (escapes (canonicalRoot ''Props'') (ParentNode k)) (children k))
        (classDeclarations (collect fileSuperProps))"
    by code_simp
  have nd: "list_all (\<lambda>k. \<not> declares ''Props'' k) (classDeclarations (collect fileSuperProps))"
    by code_simp
  have r: "canonicalRoot ''Props'' = ''this.props''" by (simp add: canonicalRoot_def)
  have "propNames (collect fileSuperProps) = [''a'']" by code_simp
  moreover have "Rule_apply fileSuperProps = Inr []" by code_simp
  ultimately show ?thesis
    using e nd C2_escape_clears[where c = "''Props''"
        and p = "ParentNode (CallExpression ''super'' [OtherNode [], wholeProps])"
        and w = "collect fileSuperProps" and sf = fileSuperProps]
    by (simp add: r unusedNames_def)
qed

theorem C2_counterexample:
  "list_ex (\<lambda>k. list_ex (escapes ''this.props'' (ParentNode k)) (children k))
     (classDeclarations (collect fileEscapeThenDeclare))
   \<and> propNames (scan (collect fileEscapeThenDeclare)) = [''z'']
   \<and> Rule_apply fileEscapeThenDeclare = Inr [createFailure 71 1 (FAILURE_UNUSED_PROP @ ''z'')]"
  by code_simp

text \<open>
  Claim C3, as amended. For a constructor whose first parameter is written \<open>a\<close>, where
  \<open>a\<close> does not start with two underscores, holds neither \<^verbatim>\<open>$\<close> nor a dot and is not
  \<^verbatim>\<open>this\<close>: \<open>a\<close> is the props alias when the walk of the constructor's children
  starts, and a walk of a subtree that holds no constructor or method declaration keeps
  the alias. At a node where \<open>a\<close> is the props alias, no state alias is set and no name
  in the Props unused set has a dot, the read \<^verbatim>\<open>a.x\<close> and the read \<^verbatim>\<open>this.props.x\<close>
  leave the walker in the same state: the one before, with \<open>x\<close>, the text written after
  the dot, removed from the Props unused set. So a constructor that is entered with no
  state alias set and no dotted name in the set, and that reads \<^verbatim>\<open>a.x\<close> as a statement
  of its body, leaves the walker as the same constructor reading \<^verbatim>\<open>this.props.x\<close>
  does, when its children before the body (the parameters) and the statements before
  the read hold no constructor, method or \<^verbatim>\<open>Props\<close> declaration.
\<close>

theorem C3_constructor_alias_read:
  assumes a: "CHR ''$'' \<notin> set a" "\<not> prefix ''__'' a" "CHR ''.'' \<notin> set a" "a \<noteq> ''this''"
    and x: "CHR ''.'' \<notin> set x"
  shows "propsAlias (visitConstructorDeclaration (WithText (escapeIdentifier a) # ps) w) = Some a
     \<and> (\<not> nestsMethod n \<longrightarrow> propsAlias (visitNode p n w) = propsAlias w)
     \<and> (propsAlias w = Some a \<and> stateAlias w = None
          \<and> list_all (\<lambda>n. CHR ''.'' \<notin> set n) (propNames w) \<longrightarrow>
         visitNode p (aliasRead a x) w = w\<lparr> propNames := Utils_remove (propNames w) x \<rparr>
         \<and> visitNode q (canonicalRead x) w = w\<lparr> propNames := Utils_remove (propNames w) x \<rparr>)
     \<and> (stateAlias w = None \<and> list_all (\<lambda>n. CHR ''.'' \<notin> set n) (propNames w)
          \<and> \<not> list_ex nestsMethod (before @ pre)
          \<and> \<not> list_ex (declares ''Props'') (before @ pre) \<longrightarrow>
         visitNode p (Constructor (WithText (escapeIdentifier a) # ps)
           (before @ [OtherNode (pre @ [OtherNode [aliasRead a x]] @ post)] @ after)) w
         = visitNode p (Constructor (WithText (escapeIdentifier a) # ps)
           (before @ [OtherNode (pre @ [OtherNode [canonicalRead x]] @ post)] @ after)) w)"
proof -
  have ea: "escapeIdentifier a = a"
    using a(2) by (rule escapeIdentifier_plain)
  have c1: "propsAlias (visitConstructorDeclaration (WithText (escapeIdentifier a) # ps) w) = Some a"
    by (simp add: ea)
  have c2: "\<not> nestsMethod n \<longrightarrow> propsAlias (visitNode p n w) = propsAlias w"
    using alias_kept(1)[of n p w] by simp
  have c3: "propsAlias w = Some a \<and> stateAlias w = None
          \<and> list_all (\<lambda>n. CHR ''.'' \<notin> set n) (propNames w) \<longrightarrow>
         visitNode p (aliasRead a x) w = w\<lparr> propNames := Utils_remove (propNames w) x \<rparr>
         \<and> visitNode q (canonicalRead x) w = w\<lparr> propNames := Utils_remove (propNames w) x \<rparr>"
    using aliasRead_effect[OF _ _ a(1,3,4) x, of w p] canonicalRead_effect[OF _ _ a(3,4), of w q x]
    by blast
  have c4: "visitNode p (Constructor (WithText (escapeIdentifier a) # ps)
           (before @ [OtherNode (pre @ [OtherNode [aliasRead a x]] @ post)] @ after)) w
         = visitNode p (Constructor (WithText (escapeIdentifier a) # ps)
           (before @ [OtherNode (pre @ [OtherNode [canonicalRead x]] @ post)] @ after)) w"
    if st: "stateAlias w = None" and nm: "list_all (\<lambda>n. CHR ''.'' \<notin> set n) (propNames w)"
      and nest: "\<not> list_ex nestsMethod (before @ pre)"
      and decl: "\<not> list_ex (declares ''Props'') (before @ pre)"
  proof -
    let ?qc = "ParentNode (Constructor (WithText (escapeIdentifier a) # ps) [])"
    let ?qb = "ParentNode (OtherNode [])"
    define w0 where "w0 = visitConstructorDeclaration (WithText (escapeIdentifier a) # ps) w"
    define w1 where "w1 = walkChildren ?qc before w0"
    define w2 where "w2 = walkChildren ?qb pre w1"
    have n: "\<not> list_ex nestsMethod before" "\<not> list_ex nestsMethod pre"
      "\<not> list_ex (declares ''Props'') before" "\<not> list_ex (declares ''Props'') pre"
      using nest decl by simp_all
    have w0: "propsAlias w0 = Some a" "stateAlias w0 = None"
      "list_all (\<lambda>n. CHR ''.'' \<notin> set n) (propNames w0)"
      using st nm by (simp_all add: w0_def ea)
    have w1: "propsAlias w1 = Some a" "stateAlias w1 = None"
      "list_all (\<lambda>n. CHR ''.'' \<notin> set n) (propNames w1)"
      using alias_kept(2)[OF n(1), of ?qc w0] w0 dotfree_kept[OF n(3) w0(3), of ?qc]
      by (simp_all add: w1_def)
    have w2: "propsAlias w2 = Some a" "stateAlias w2 = None"
      "list_all (\<lambda>n. CHR ''.'' \<notin> set n) (propNames w2)"
      using alias_kept(2)[OF n(2), of ?qb w1] w1 dotfree_kept[OF n(4) w1(3), of ?qb]
      by (simp_all add: w2_def)
    have rd: "visitNode ?qb (aliasRead a x) w2 = visitNode ?qb (canonicalRead x) w2"
      using aliasRead_effect[OF w2(1,2) a(1,3,4) x] canonicalRead_effect[OF w2(1,2) a(3,4) w2(3)]
      by simp
    show ?thesis
      unfolding constructor_walk w0_def[symmetric] w1_def[symmetric] w2_def[symmetric]
      by (simp only: rd)
  qed
  show ?thesis using c1 c2 c3 c4 by blast
qed

theorem C3_constructor_alias_read_witness:
  "CHR ''$'' \<notin> set ''props'' \<and> \<not> prefix ''__'' ''props'' \<and> CHR ''.'' \<notin> set ''props''
   \<and> ''props'' \<noteq> ''this'' \<and> CHR ''.'' \<notin> set ''x''
   \<and> \<not> nestsMethod (Parameter [Identifier ''props''])
   \<and> \<not> declares ''Props'' (Parameter [Identifier ''props''])
   \<and> stateAlias (collect (fileAliasRead ''props'')) = None
   \<and> propNames (collect (fileAliasRead ''props'')) = [''x'']
   \<and> propNames (visitNode ParentSourceFile (aliasRead ''props'' ''x'')
        (visitConstructorDeclaration [WithText ''props''] (collect (fileAliasRead ''props''))))
     = []
   \<and> visitNode ParentSourceFile (aliasRead ''props'' ''x'')
        (visitConstructorDeclaration [WithText ''props''] (collect (fileAliasRead ''props'')))
     = visitNode ParentSourceFile (canonicalRead ''x'')
        (visitConstructorDeclaration [WithText ''props''] (collect (fileAliasRead ''props'')))
   \<and> visitNode ParentSourceFile
        (Constructor [WithText ''props'']
           [Parameter [Identifier ''props''], OtherNode [OtherNode [aliasRead ''props'' ''x'']]])
        (collect (fileAliasRead ''props''))
     = visitNode ParentSourceFile
        (Constructor [WithText ''props'']
           [Parameter [Identifier ''props''], OtherNode [OtherNode [canonicalRead ''x'']]])
        (collect (fileAliasRead ''props''))
   \<and> Rule_apply (fileAliasRead ''props'') = Inr []"
proof -
  let ?c = "collect (fileAliasRead ''props'')"
  let ?w = "visitConstructorDeclaration [WithText ''props''] ?c"
  have h: "CHR ''$'' \<notin> set ''props''" "\<not> prefix ''__'' ''props''" "CHR ''.'' \<notin> set ''props''"
    "''props'' \<noteq> ''this''" "CHR ''.'' \<notin> set ''x''"
    by simp_all
  have e: "escapeIdentifier ''props'' = ''props''"
    by (simp add: escapeIdentifier_def)
  have w: "propsAlias ?w = Some ''props''" "stateAlias ?w = None" "propNames ?w = [''x'']"
    "stateAlias ?c = None" "propNames ?c = [''x'']"
    by code_simp+
  have r: "Utils_remove [''x''] ''x'' = []" by (simp add: Utils_remove_def)
  have f: "Rule_apply (fileAliasRead ''props'') = Inr []" by code_simp
  have n: "\<not> nestsMethod (Parameter [Identifier ''props''])"
    "\<not> declares ''Props'' (Parameter [Identifier ''props''])"
    by simp_all
  have 1: "visitNode ParentSourceFile (aliasRead ''props'' ''x'') ?w
             = ?w\<lparr> propNames := Utils_remove (propNames ?w) ''x'' \<rparr>
           \<and> visitNode ParentSourceFile (canonicalRead ''x'') ?w
             = ?w\<lparr> propNames := Utils_remove (propNames ?w) ''x'' \<rparr>"
    using C3_constructor_alias_read[OF h, where w = ?w and p = ParentSourceFile
        and q = ParentSourceFile and ps = "[]" and n = "OtherNode []" and before = "[]"
        and pre = "[]" and post = "[]" and after = "[]"] w
    by simp
  have 2: "visitNode ParentSourceFile
        (Constructor [WithText ''props'']
           [Parameter [Identifier ''props''], OtherNode [OtherNode [aliasRead ''props'' ''x'']]]) ?c
     = visitNode ParentSourceFile
        (Constructor [WithText ''props'']
           [Parameter [Identifier ''props''], OtherNode [OtherNode [canonicalRead ''x'']]]) ?c"
    using C3_constructor_alias_read[OF h, where w = ?c and p = ParentSourceFile
        and q = ParentSourceFile and ps = "[]" and n = "OtherNode []"
        and before = "[Parameter [Identifier ''props'']]"
        and pre = "[]" and post = "[]" and after = "[]"] w
    by (simp add: e)
  show ?thesis
    using 1 2 w f n by (simp add: r)
qed

theorem C3_counterexample:
  "Rule_apply (fileNestedMethod (aliasRead ''p'' ''x''))
     = Inr [createFailure 18 1 (FAILURE_UNUSED_PROP @ ''x'')]
   \<and> Rule_apply (fileNestedMethod (canonicalRead ''x'')) = Inr []
   \<and> Rule_apply fileDefaultNestsMethod = Inr [createFailure 18 1 (FAILURE_UNUSED_PROP @ ''x'')]
   \<and> Rule_apply (fileAliasRead ''__p'') = Inr [createFailure 18 1 (FAILURE_UNUSED_PROP @ ''x'')]"
  by code_simp

text \<open>
  Claim C4, as amended. A visit of an identifier equal to the props alias empties the
  Props unused set unless its parent is a property access, a parameter or a call whose
  callee is \<^verbatim>\<open>super\<close>; a visit of an identifier equal to the state alias empties the
  State unused set unless its parent is a property access or a parameter: the state
  alias has no exception for \<^verbatim>\<open>super(...)\<close>.
\<close>

theorem C4_alias_as_a_whole:
  "propNames (visitNode p (Identifier t) w) =
     (if propsAlias w = Some t \<and> parentKind p \<noteq> KindPropertyAccessExpression
         \<and> parentKind p \<noteq> KindParameter \<and> \<not> isParentNodeSuperCall p
      then [] else propNames w)
   \<and> stateNames (visitNode p (Identifier t) w) =
     (if stateAlias w = Some t \<and> parentKind p \<noteq> KindPropertyAccessExpression
         \<and> parentKind p \<noteq> KindParameter
      then [] else stateNames w)
   \<and> isParentNodeSuperCall (ParentNode (CallExpression u args)) = (u = ''super'')"
  by (simp add: visitIdentifier_def)

theorem C4_alias_as_a_whole_witness:
  "propsAlias (visitConstructorDeclaration [WithText ''props''] (collect (fileAliasRead ''props'')))
     = Some ''props''
   \<and> propNames (visitNode (ParentNode (CallExpression ''super'' [OtherNode [], Identifier ''props'']))
        (Identifier ''props'')
        (visitConstructorDeclaration [WithText ''props''] (collect (fileAliasRead ''props''))))
     = [''x'']
   \<and> propNames (visitNode (ParentNode (CallExpression ''f'' [Identifier ''f'', Identifier ''props'']))
        (Identifier ''props'')
        (visitConstructorDeclaration [WithText ''props''] (collect (fileAliasRead ''props''))))
     = []
   \<and> stateNames (visitNode (ParentNode (CallExpression ''f'' [Identifier ''f'', Identifier ''prevState'']))
        (Identifier ''prevState'')
        (visitMethodDeclaration (WithText ''componentDidUpdate'')
           [WithText ''prevProps'', WithText ''prevState''] (collect fileSuperState)))
     = []"
proof -
  let ?w = "visitConstructorDeclaration [WithText ''props''] (collect (fileAliasRead ''props''))"
  let ?v = "visitMethodDeclaration (WithText ''componentDidUpdate'')
           [WithText ''prevProps'', WithText ''prevState''] (collect fileSuperState)"
  have a: "propsAlias ?w = Some ''props''" "propNames ?w = [''x'']" by code_simp+
  have b: "stateAlias ?v = Some ''prevState''" by code_simp
  show ?thesis
    using a b
      C4_alias_as_a_whole[where w = ?w and t = "''props''" and u = "''super''"
        and args = "[OtherNode [], Identifier ''props'']"
        and p = "ParentNode (CallExpression ''super'' [OtherNode [], Identifier ''props''])"]
      C4_alias_as_a_whole[where w = ?w and t = "''props''" and u = "''f''"
        and args = "[Identifier ''f'', Identifier ''props'']"
        and p = "ParentNode (CallExpression ''f'' [Identifier ''f'', Identifier ''props''])"]
      C4_alias_as_a_whole[where w = ?v and t = "''prevState''" and u = "''f''"
        and args = "[Identifier ''f'', Identifier ''prevState'']"
        and p = "ParentNode (CallExpression ''f'' [Identifier ''f'', Identifier ''prevState''])"]
    by simp
qed

theorem C4_counterexample:
  "stateAlias (visitMethodDeclaration (WithText ''componentDidUpdate'')
       [WithText ''prevProps'', WithText ''prevState''] (collect fileSuperState))
     = Some ''prevState''
   \<and> stateNames (visitMethodDeclaration (WithText ''componentDidUpdate'')
       [WithText ''prevProps'', WithText ''prevState''] (collect fileSuperState)) = [''y'']
   \<and> stateNames (visitNode (ParentNode (CallExpression ''super'' [OtherNode [], Identifier ''prevState'']))
        (Identifier ''prevState'')
        (visitMethodDeclaration (WithText ''componentDidUpdate'')
           [WithText ''prevProps'', WithText ''prevState''] (collect fileSuperState)))
     = []
   \<and> stateNames (scan (collect fileSuperState)) = []
   \<and> Rule_apply fileSuperState = Inr []"
  by code_simp




text \<open>
  Claim C6. For a file that is not JSX the rule returns no finding and makes no visit:
  the list of visits is empty, the visit of the source file is not in it. For a JSX file
  the list holds the visit of the source file and the visit of every statement of the
  file. The findings of the run with the visits written down are those of the run.
\<close>

theorem C6_non_jsx_no_traversal:
  "fst (Rule_apply_logged sf) = Rule_apply sf
   \<and> (languageVariant sf \<noteq> JSX \<longrightarrow>
        Rule_apply sf = Inr [] \<and> snd (Rule_apply_logged sf) = [])
   \<and> (languageVariant sf = JSX \<longrightarrow>
        VisitSourceFile \<in> set (snd (Rule_apply_logged sf))
        \<and> list_all (\<lambda>n. VisitNode n \<in> set (snd (Rule_apply_logged sf))) (statements sf))"
proof -
  have a: "fst (Rule_apply_logged sf) = Rule_apply sf"
    by (rule Rule_apply_logged_agrees)
  have b: "Rule_apply sf = Inr [] \<and> snd (Rule_apply_logged sf) = []"
    if "languageVariant sf \<noteq> JSX"
    using that by (simp add: Rule_apply_def Rule_apply_logged_def)
  have c: "VisitSourceFile \<in> set (snd (Rule_apply_logged sf))
        \<and> list_all (\<lambda>n. VisitNode n \<in> set (snd (Rule_apply_logged sf))) (statements sf)"
    if jsx: "languageVariant sf = JSX"
  proof -
    have l: "snd (Rule_apply_logged sf) = snd (scanLogged (collectLogged sf))"
      using jsx by (simp add: Rule_apply_logged_def visitSourceFileLogged_def)
    have "VisitSourceFile \<in> set (snd (collectLogged sf))"
      unfolding collectLogged_def by (rule logged_keeps(2)) simp
    then have s: "VisitSourceFile \<in> set (snd (scanLogged (collectLogged sf)))"
      by (rule scanLogged_keeps)
    have "VisitNode n \<in> set (snd (scanLogged (collectLogged sf)))" if "n \<in> set (statements sf)" for n
      using that unfolding collectLogged_def
      by (intro scanLogged_keeps logged_visits_children)
    then show ?thesis
      using s unfolding l by (simp add: list_all_iff)
  qed
  show ?thesis using a b c by blast
qed

theorem C6_non_jsx_no_traversal_witness:
  "languageVariant fileNotJsx \<noteq> JSX
   \<and> Rule_apply fileNotJsx = Inr []
   \<and> Rule_apply_logged fileNotJsx = (Inr [], [])
   \<and> languageVariant fileReadingA = JSX
   \<and> statements fileReadingA = statements fileNotJsx
   \<and> hd (snd (Rule_apply_logged fileReadingA)) = VisitSourceFile
   \<and> VisitNode interfaceAB \<in> set (snd (Rule_apply_logged fileReadingA))
   \<and> length (snd (Rule_apply_logged fileReadingA)) = 34"
proof -
  have j: "languageVariant fileNotJsx \<noteq> JSX" "languageVariant fileReadingA = JSX"
    "statements fileReadingA = statements fileNotJsx"
    by (simp_all add: fileNotJsx_def fileReadingA_def)
  have s: "statements fileReadingA = [interfaceAB, componentReadingA]"
    by (simp add: fileReadingA_def)
  have h: "hd (snd (Rule_apply_logged fileReadingA)) = VisitSourceFile"
    "length (snd (Rule_apply_logged fileReadingA)) = 34"
    by code_simp+
  show ?thesis
    using C6_non_jsx_no_traversal[of fileNotJsx] C6_non_jsx_no_traversal[of fileReadingA] j h
    by (simp add: s prod_eq_iff)
qed

text \<open>
  Claim C7, as amended. A walk that meets no declaration of the contract's interface
  only shrinks the contract's unused set, and so does the scan of the stored classes
  when none of them declares it; a visit of an interface named \<^verbatim>\<open>Props\<close> or \<^verbatim>\<open>State\<close>
  sets the unused set anew to the keys of that declaration, whatever it held before.
\<close>

theorem C7_sets_shrink_between_declarations:
  "(\<not> declares ''Props'' n \<longrightarrow> set (propNames (visitNode p n w)) \<subseteq> set (propNames w))
   \<and> (\<not> declares ''State'' n \<longrightarrow> set (stateNames (visitNode p n w)) \<subseteq> set (stateNames w))
   \<and> (list_all (\<lambda>k. \<not> declares ''Props'' k) (classDeclarations w) \<longrightarrow>
        set (propNames (scan w)) \<subseteq> set (propNames w))
   \<and> (list_all (\<lambda>k. \<not> declares ''State'' k) (classDeclarations w) \<longrightarrow>
        set (stateNames (scan w)) \<subseteq> set (stateNames w))
   \<and> propNames (visitInterfaceDeclaration ''Props'' ms w) = Object_keys (getTypeElementData ms)
   \<and> stateNames (visitInterfaceDeclaration ''State'' ms w) = Object_keys (getTypeElementData ms)"
proof -
  have "\<not> declares ''Props'' n \<longrightarrow> set (propNames (visitNode p n w)) \<subseteq> set (propNames w)"
    using undeclared_shrinks(1)[of "''Props''" n p w] by (simp add: unusedNames_def)
  moreover have "\<not> declares ''State'' n \<longrightarrow> set (stateNames (visitNode p n w)) \<subseteq> set (stateNames w)"
    using undeclared_shrinks(1)[of "''State''" n p w] by (simp add: unusedNames_def)
  moreover have "list_all (\<lambda>k. \<not> declares ''Props'' k) (classDeclarations w) \<longrightarrow>
        set (propNames (scan w)) \<subseteq> set (propNames w)"
    using scan_shrinks[of "''Props''" w] declares_children
    by (auto simp: unusedNames_def list_all_iff)
  moreover have "list_all (\<lambda>k. \<not> declares ''State'' k) (classDeclarations w) \<longrightarrow>
        set (stateNames (scan w)) \<subseteq> set (stateNames w)"
    using scan_shrinks[of "''State''" w] declares_children
    by (auto simp: unusedNames_def list_all_iff)
  ultimately show ?thesis by simp
qed

theorem C7_sets_shrink_between_declarations_witness:
  "\<not> declares ''Props'' componentReadingA
   \<and> list_all (\<lambda>k. \<not> declares ''Props'' k) (classDeclarations (collect fileReadingA))
   \<and> set (propNames (scan (collect fileReadingA))) \<subseteq> set (propNames (collect fileReadingA))
   \<and> propNames (scan (collect fileReadingA)) = [''b'']
   \<and> propNames (collect fileReadingA) = [''a'', ''b'']"
proof -
  have h: "list_all (\<lambda>k. \<not> declares ''Props'' k) (classDeclarations (collect fileReadingA))"
    by code_simp
  have "\<not> declares ''Props'' componentReadingA" by code_simp
  moreover have "propNames (scan (collect fileReadingA)) = [''b'']" by code_simp
  moreover have "propNames (collect fileReadingA) = [''a'', ''b'']" by code_simp
  ultimately show ?thesis
    using h C7_sets_shrink_between_declarations[where n = componentReadingA
        and p = ParentSourceFile and w = "collect fileReadingA" and ms = "[]"]
    by simp
qed

theorem C7_counterexample:
  "propNames (walkChildren ParentSourceFile (take 1 statementsRedeclared) newWalker) = [''a'']
   \<and> propNames (walkChildren ParentSourceFile (take 2 statementsRedeclared) newWalker) = []
   \<and> propNames (walkChildren ParentSourceFile statementsRedeclared newWalker) = [''a'']
   \<and> Rule_apply fileRedeclared = Inr [createFailure 78 1 (FAILURE_UNUSED_PROP @ ''a'')]"
  by code_simp

text \<open>
  Claim C8, as amended. Every visit of an interface named \<open>c\<close> (\<^verbatim>\<open>Props\<close> or \<^verbatim>\<open>State\<close>)
  replaces the contract's member object by the one built from that declaration alone
  and the unused set by its keys, whatever the walker held before; the walk of the
  declaration's own children, when they declare no such interface, keeps the object and
  only shrinks the set. A class declaration is stored: the visit of it changes neither,
  whatever is declared inside it. When the statements of a file hold two declarations
  of \<open>c\<close> and nothing the walker visits after the second one declares \<open>c\<close> (neither its
  children, nor the statements after it, nor the stored classes), then at the end of
  the run the member object is the second declaration's and every name still unused is
  a key of it: a member that only the first declaration has is not reported, and the
  reported spans are those of the second declaration's members.
\<close>

theorem C8_visited_declaration_replaces:
  assumes c: "c = ''Props'' \<or> c = ''State''"
  shows "memberNodes c (visitInterfaceDeclaration c ms w) = getTypeElementData ms
     \<and> unusedNames c (visitInterfaceDeclaration c ms w) = Object_keys (getTypeElementData ms)
     \<and> (\<not> list_ex (declares c) cs \<longrightarrow>
          memberNodes c (visitNode p (InterfaceDeclaration c ms cs) w) = getTypeElementData ms
          \<and> set (unusedNames c (visitNode p (InterfaceDeclaration c ms cs) w))
               \<subseteq> fst ` set (getTypeElementData ms))
     \<and> memberNodes c (visitNode p (ClassDeclaration ks) w) = memberNodes c w
     \<and> unusedNames c (visitNode p (ClassDeclaration ks) w) = unusedNames c w
     \<and> (statements sf =
            pre @ [InterfaceDeclaration c ms1 cs1] @ mid @ [InterfaceDeclaration c ms2 cs2] @ post
          \<and> \<not> list_ex (declares c) (cs2 @ post)
          \<and> list_all (\<lambda>k. \<not> declares c k) (classDeclarations (collect sf)) \<longrightarrow>
          memberNodes c (scan (collect sf)) = getTypeElementData ms2
          \<and> set (unusedNames c (scan (collect sf))) \<subseteq> fst ` set (getTypeElementData ms2))"
proof -
  have v: "memberNodes c (visitInterfaceDeclaration c ms v) = getTypeElementData ms"
    "unusedNames c (visitInterfaceDeclaration c ms v) = Object_keys (getTypeElementData ms)"
    for ms v
    using c by (auto simp: memberNodes_def unusedNames_def)
  have n: "memberNodes c (visitNode p (InterfaceDeclaration c ms cs) v) = getTypeElementData ms
          \<and> set (unusedNames c (visitNode p (InterfaceDeclaration c ms cs) v))
               \<subseteq> fst ` set (getTypeElementData ms)"
    if nd: "\<not> list_ex (declares c) cs" for p ms cs v
    using undeclared_shrinks(2)[OF c nd, of "ParentNode (InterfaceDeclaration c ms cs)"
        "visitInterfaceDeclaration c ms v"] v[of ms v]
    by simp
  have f: "memberNodes c (scan (collect sf)) = getTypeElementData ms2
          \<and> set (unusedNames c (scan (collect sf))) \<subseteq> fst ` set (getTypeElementData ms2)"
    if stmts: "statements sf =
            pre @ [InterfaceDeclaration c ms1 cs1] @ mid @ [InterfaceDeclaration c ms2 cs2] @ post"
      and after: "\<not> list_ex (declares c) (cs2 @ post)"
      and classes: "list_all (\<lambda>k. \<not> declares c k) (classDeclarations (collect sf))"
  proof -
    define w1 where
      "w1 = walkChildren ParentSourceFile (pre @ [InterfaceDeclaration c ms1 cs1] @ mid) newWalker"
    define w3 where "w3 = visitNode ParentSourceFile (InterfaceDeclaration c ms2 cs2) w1"
    define w4 where "w4 = walkChildren ParentSourceFile post w3"
    have col: "collect sf = w4"
      by (simp add: collect_def stmts walkChildren_append w1_def w3_def w4_def)
    have nd: "\<not> list_ex (declares c) cs2" "\<not> list_ex (declares c) post"
      using after by simp_all
    have n3: "memberNodes c w3 = getTypeElementData ms2"
      "set (unusedNames c w3) \<subseteq> fst ` set (getTypeElementData ms2)"
      unfolding w3_def using n[OF nd(1)] by simp_all
    have n4: "memberNodes c w4 = memberNodes c w3" "set (unusedNames c w4) \<subseteq> set (unusedNames c w3)"
      unfolding w4_def using undeclared_shrinks(2)[OF c nd(2)] by simp_all
    have "\<forall>k\<in>set (classDeclarations w4). \<not> list_ex (declares c) (children k)"
      using classes declares_children by (auto simp: col list_all_iff)
    then have n5: "memberNodes c (scan w4) = memberNodes c w4"
      "set (unusedNames c (scan w4)) \<subseteq> set (unusedNames c w4)"
      using scan_shrinks[OF c] by simp_all
    have "memberNodes c (scan w4) = getTypeElementData ms2"
      using n3(1) n4(1) n5(1) by simp
    moreover have "set (unusedNames c (scan w4)) \<subseteq> fst ` set (getTypeElementData ms2)"
      using n3(2) n4(2) n5(2) by blast
    ultimately show ?thesis unfolding col by blast
  qed
  have k: "memberNodes c (visitNode p (ClassDeclaration ks) w) = memberNodes c w"
    "unusedNames c (visitNode p (ClassDeclaration ks) w) = unusedNames c w"
    by (simp_all add: memberNodes_def unusedNames_def)
  show ?thesis using v n k f by blast
qed

theorem C8_visited_declaration_replaces_witness:
  "list_all (\<lambda>k. \<not> declares ''Props'' k) (classDeclarations (collect fileTwoDeclarations))
   \<and> propNodes (scan (collect fileTwoDeclarations)) =
       getTypeElementData [member ''b'' 43 2, member ''c'' 46 1]
   \<and> set (propNames (scan (collect fileTwoDeclarations)))
       \<subseteq> fst ` set (getTypeElementData [member ''b'' 43 2, member ''c'' 46 1])
   \<and> ''a'' \<notin> fst ` set (getTypeElementData [member ''b'' 43 2, member ''c'' 46 1])
   \<and> propNames (collect fileTwoDeclarations) = [''b'', ''c'']
   \<and> Rule_apply fileTwoDeclarations = Inr [createFailure 46 1 (FAILURE_UNUSED_PROP @ ''c'')]"
proof -
  have stmts: "statements fileTwoDeclarations =
      [] @ [InterfaceDeclaration ''Props'' [member ''a'' 18 2, member ''b'' 21 1]
              [Identifier ''Props'', memberNode ''a'', memberNode ''b'']] @ []
         @ [InterfaceDeclaration ''Props'' [member ''b'' 43 2, member ''c'' 46 1]
              [Identifier ''Props'', memberNode ''b'', memberNode ''c'']] @ [componentReadingB]"
    by code_simp
  have after: "\<not> list_ex (declares ''Props'')
      ([Identifier ''Props'', memberNode ''b'', memberNode ''c''] @ [componentReadingB])"
    by code_simp
  have classes: "list_all (\<lambda>k. \<not> declares ''Props'' k)
      (classDeclarations (collect fileTwoDeclarations))"
    by code_simp
  have k: "''a'' \<notin> fst ` set (getTypeElementData [member ''b'' 43 2, member ''c'' 46 1])"
    by (simp add: getTypeElementData_def member_def setProperty_def escapeIdentifier_def)
  have r: "Rule_apply fileTwoDeclarations = Inr [createFailure 46 1 (FAILURE_UNUSED_PROP @ ''c'')]"
    "propNames (collect fileTwoDeclarations) = [''b'', ''c'']"
    by code_simp+
  show ?thesis
    using C8_visited_declaration_replaces[where c = "''Props''" and sf = fileTwoDeclarations
        and pre = "[]" and mid = "[]" and post = "[componentReadingB]"
        and ?ms1.0 = "[member ''a'' 18 2, member ''b'' 21 1]"
        and ?cs1.0 = "[Identifier ''Props'', memberNode ''a'', memberNode ''b'']"
        and ?ms2.0 = "[member ''b'' 43 2, member ''c'' 46 1]"
        and ?cs2.0 = "[Identifier ''Props'', memberNode ''b'', memberNode ''c'']"]
      stmts after classes r k
    by (simp add: memberNodes_def unusedNames_def)
qed

theorem C8_counterexample:
  "list_ex (declares ''Props'') (take 1 (statements fileNestedClassDeclares))
   \<and> list_ex (declares ''Props'') (drop 1 (statements fileNestedClassDeclares))
   \<and> propNodes (scan (collect fileNestedClassDeclares)) = getTypeElementData [member ''a'' 18 1]
   \<and> Rule_apply fileNestedClassDeclares = Inr [createFailure 18 1 (FAILURE_UNUSED_PROP @ ''a'')]"
  by code_simp



text \<open>
  Claim C10, on the input where the code departs from it. With the constructor
  parameter \<^verbatim>\<open>$p\<close> the read \<^verbatim>\<open>$p.x\<close> starts with the alias and a dot, yet the pattern
  built from the alias does not match it and \<open>x\<close> is reported; with the parameter \<^verbatim>\<open>p\<close>
  the read \<^verbatim>\<open>p.x\<close> removes \<open>x\<close>.
\<close>

theorem C10_dollar_alias_read_is_missed:
  "prefix (''$p'' @ ''.'') ''$p.x''
   \<and> aliasRegExpTest ''$p'' ''$p.x'' = False
   \<and> Rule_apply (fileAliasRead ''$p'') = Inr [createFailure 18 1 (FAILURE_UNUSED_PROP @ ''x'')]
   \<and> Rule_apply (fileAliasRead ''p'') = Inr []"
  by code_simp

end
